theory Spec2Isabelle
  imports Main "HOL-Library.Sublist"
begin

section \<open>Partition registry (utils/partitions.py)\<close>

text \<open>
  The three partition kinds are the integers \<open>range(3)\<close> in the source; they are only
  ever compared for equality, so they are an enumeration here.
\<close>

datatype partition_type = FILESYSTEM | BOOTIMAGE | RAW

text \<open>
  \<open>PARTITIONS\<close> is a Python dict literal. A dict iterates in insertion order, so the
  table is an association list in declaration order; lookups go through \<open>map_of\<close>.
\<close>

definition PARTITIONS :: "(string \<times> partition_type) list" where
  "PARTITIONS =
    [(''boot'', BOOTIMAGE),
     (''dtbo'', RAW),
     (''recovery'', BOOTIMAGE),
     (''vendor_boot'', BOOTIMAGE),
     (''exaid'', BOOTIMAGE),
     (''rescue'', BOOTIMAGE),
     (''tz'', RAW),
     (''odm'', FILESYSTEM),
     (''odm_dlkm'', FILESYSTEM),
     (''oem'', FILESYSTEM),
     (''product'', FILESYSTEM),
     (''system'', FILESYSTEM),
     (''system_dlkm'', FILESYSTEM),
     (''system_ext'', FILESYSTEM),
     (''system_other'', FILESYSTEM),
     (''vendor'', FILESYSTEM),
     (''vendor_dlkm'', FILESYSTEM),
     (''cust'', FILESYSTEM),
     (''factory'', FILESYSTEM),
     (''india'', FILESYSTEM),
     (''modem'', FILESYSTEM),
     (''my_bigball'', FILESYSTEM),
     (''my_carrier'', FILESYSTEM),
     (''my_company'', FILESYSTEM),
     (''my_country'', FILESYSTEM),
     (''my_custom'', FILESYSTEM),
     (''my_engineering'', FILESYSTEM),
     (''my_heytap'', FILESYSTEM),
     (''my_manifest'', FILESYSTEM),
     (''my_odm'', FILESYSTEM),
     (''my_operator'', FILESYSTEM),
     (''my_preload'', FILESYSTEM),
     (''my_product'', FILESYSTEM),
     (''my_region'', FILESYSTEM),
     (''my_stock'', FILESYSTEM),
     (''my_version'', FILESYSTEM),
     (''odm_ext'', FILESYSTEM),
     (''oppo_product'', FILESYSTEM),
     (''opproduct'', FILESYSTEM),
     (''preload_common'', FILESYSTEM),
     (''reserve'', FILESYSTEM),
     (''special_preload'', FILESYSTEM),
     (''systemex'', FILESYSTEM),
     (''xrom'', FILESYSTEM)]"

definition ALTERNATIVE_PARTITION_NAMES :: "(string \<times> string) list" where
  "ALTERNATIVE_PARTITION_NAMES =
    [(''boot-verified'', ''boot''),
     (''dtbo-verified'', ''dtbo''),
     (''NON-HLOS'', ''modem'')]"

definition get_partition_name :: "string \<Rightarrow> string" where
  "get_partition_name partition_name =
     (case map_of ALTERNATIVE_PARTITION_NAMES partition_name of
        Some name \<Rightarrow> name
      | None \<Rightarrow> partition_name)"

definition get_partition_names :: "string list" where
  "get_partition_names = map fst PARTITIONS"

definition get_partition_names_with_alias :: "string list" where
  "get_partition_names_with_alias =
     get_partition_names @ map fst ALTERNATIVE_PARTITION_NAMES"

definition get_partition_names_with_ab :: "string list" where
  "get_partition_names_with_ab =
     concat (map (\<lambda>partition. [partition, partition @ ''_a'', partition @ ''_b''])
                 get_partition_names_with_alias)"

section \<open>Strings and file names\<close>

text \<open>Python's \<open>str.endswith\<close>.\<close>

definition endswith :: "string \<Rightarrow> string \<Rightarrow> bool" where
  "endswith s suf =
     (length suf \<le> length s \<and> drop (length s - length suf) s = suf)"

text \<open>
  \<open>removesuffix\<close> is the function of \<open>sebaubuntu_libs.libstring\<close> that the source imports,
  not \<open>str.removesuffix\<close>: when the string ends with the suffix the result is the slice
  \<open>string[:-len(suffix)]\<close>, otherwise the string. Every string ends with the empty
  suffix, and the slice \<open>string[:-0]\<close> is empty: for the empty suffix the result is the
  empty string.
\<close>

definition removesuffix :: "string \<Rightarrow> string \<Rightarrow> string" where
  "removesuffix s suf =
     (if endswith s suf
      then (if length suf = 0 then [] else take (length s - length suf) s)
      else s)"

text \<open>Python's \<open>str.split(sep)\<close> for a one-character separator.\<close>

fun split_on :: "char \<Rightarrow> string \<Rightarrow> string list" where
  "split_on c [] = [[]]"
| "split_on c (x # xs) =
     (if x = c then [] # split_on c xs
      else (case split_on c xs of
              [] \<Rightarrow> [[x]]
            | p # ps \<Rightarrow> (x # p) # ps))"

text \<open>
  \<open>pathlib.PurePath.suffixes\<close> on the final path component: no suffix when the name
  ends with a dot; otherwise leading dots are stripped and every piece after the first
  dot is a suffix, with its dot.
\<close>

definition suffixes :: "string \<Rightarrow> string list" where
  "suffixes name =
     (if endswith name ''.'' then []
      else map (\<lambda>s. CHR ''.'' # s)
               (tl (split_on CHR ''.'' (dropWhile (\<lambda>c. c = CHR ''.'') name))))"

definition get_filename_suffixes :: "string \<Rightarrow> string" where
  "get_filename_suffixes file = concat (suffixes file)"

text \<open>
  For a name without extensions the joined suffixes are empty, and so is the result of
  \<open>removesuffix\<close>: the stem of such a name is the empty string.
\<close>

definition get_filename_without_extensions :: "string \<Rightarrow> string" where
  "get_filename_without_extensions file = removesuffix file (get_filename_suffixes file)"

section \<open>The staging directory and its primitives\<close>

text \<open>
  The raw-images staging directory is created empty by the orchestrator and filled with
  regular files \<open><name>.img\<close>; it is a flat map from file name to file content. On
  such a directory \<open>Path.exists\<close> and \<open>Path.is_file\<close> coincide. Every raise of the
  source is a value: a call returns its outcome together with the directory it leaves
  behind, so the effects made before an exception stay visible.

  The exceptions are the ones the source can meet: those of the file-system calls, the
  \<open>CalledProcessError\<close> of a subprocess that exits non-zero (with its captured output),
  and \<open>OtherException\<close> for any other subclass of \<open>Exception\<close> (with its text).
\<close>

type_synonym content = string
type_synonym dir = "string \<rightharpoonup> content"

datatype exn =
    FileNotFoundError
  | FileExistsError
  | NotADirectoryError
  | IsADirectoryError
  | KeyError
  | CalledProcessError string
  | OtherException string

datatype 'a result = Returned 'a | Raised exn

definition path_exists :: "dir \<Rightarrow> string \<Rightarrow> bool" where
  "path_exists d p = (d p \<noteq> None)"

definition is_file :: "dir \<Rightarrow> string \<Rightarrow> bool" where
  "is_file d p = (d p \<noteq> None)"

text \<open>\<open>Path.unlink()\<close>: raises when the file is missing.\<close>

definition unlink :: "string \<Rightarrow> dir \<Rightarrow> unit result \<times> dir" where
  "unlink p d =
     (if d p = None then (Raised FileNotFoundError, d)
      else (Returned (), d(p := None)))"

text \<open>
  \<open>shutil.move(src, dst)\<close> between two names of the directory: \<open>os.rename\<close>, which
  replaces an existing file; with a missing source the rename fails, the fallback copy
  opens the source first and raises, and nothing has changed.
\<close>

definition move :: "string \<Rightarrow> string \<Rightarrow> dir \<Rightarrow> unit result \<times> dir" where
  "move src dst d =
     (if d src = None then (Raised FileNotFoundError, d)
      else (Returned (), (d(src := None))(dst := d src)))"

text \<open>A \<open>for\<close> loop over a list whose body may raise; a raise ends the loop.\<close>

fun for_each :: "('x \<Rightarrow> 's \<Rightarrow> unit result \<times> 's) \<Rightarrow> 'x list \<Rightarrow> 's \<Rightarrow> unit result \<times> 's" where
  "for_each body [] s = (Returned (), s)"
| "for_each body (x # xs) s =
     (case body x s of
        (Raised e, s') \<Rightarrow> (Raised e, s')
      | (Returned u, s') \<Rightarrow> for_each body xs s')"

section \<open>AliasResolver: fix_aliases\<close>

text \<open>
  One iteration of the loop of \<open>fix_aliases\<close>. The branch for an existing canonical
  image unlinks the alias and then falls through to the \<open>move\<close> below it, as the source
  does: there is no \<open>continue\<close> after the \<open>unlink\<close>.
\<close>

definition fix_alias :: "string \<times> string \<Rightarrow> dir \<Rightarrow> unit result \<times> dir" where
  "fix_alias entry d =
     (case entry of (alt_name, name) \<Rightarrow>
        (let alt_path = alt_name @ ''.img'';
             partition_path = name @ ''.img''
         in if \<not> path_exists d alt_path then (Returned (), d)
            else (case (if path_exists d partition_path then unlink alt_path d
                        else (Returned (), d)) of
                    (Raised e, d') \<Rightarrow> (Raised e, d')
                  | (Returned u, d') \<Rightarrow> move alt_path partition_path d')))"

definition fix_aliases :: "dir \<Rightarrow> unit result \<times> dir" where
  "fix_aliases images = for_each fix_alias ALTERNATIVE_PARTITION_NAMES images"

section \<open>SlotResolver: correct_ab_filenames\<close>

text \<open>
  One iteration of the loop of \<open>correct_ab_filenames\<close>, on directory entry \<open>file\<close>.
  Every \<open>continue\<close> of the source is a return of the unchanged directory.
\<close>

definition slot_body :: "string \<Rightarrow> dir \<Rightarrow> unit result \<times> dir" where
  "slot_body file d =
     (if \<not> is_file d file then (Returned (), d)
      else
        (let file_stem = get_filename_without_extensions file
         in if \<not> endswith file_stem ''_a'' \<and> \<not> endswith file_stem ''_b''
            then (Returned (), d)
            else
              (let suffix = drop (length file_stem - 2) file_stem;
                   file_stem_unslotted = removesuffix file_stem suffix
               in if file_stem_unslotted \<notin> set get_partition_names_with_alias
                  then (Returned (), d)
                  else
                    (let non_ab_partition_path =
                           file_stem_unslotted @ get_filename_suffixes file;
                         a_partition_path =
                           file_stem_unslotted @ ''_a'' @ get_filename_suffixes file;
                         b_partition_path =
                           file_stem_unslotted @ ''_b'' @ get_filename_suffixes file
                     in if is_file d non_ab_partition_path then unlink file d
                        else if is_file d a_partition_path
                          then move a_partition_path non_ab_partition_path d
                        else if is_file d b_partition_path
                          then move b_partition_path non_ab_partition_path d
                        else (Returned (), d)))))"

text \<open>
  \<open>Path.iterdir\<close> reads the directory listing once, when the loop starts, and yields
  the names of that snapshot in an order the operating system chooses; the loop body
  then sees the directory as earlier iterations left it. The snapshot is the parameter
  \<open>listing\<close>: a real run has \<open>distinct listing\<close> and \<open>set listing = dom images\<close>.
\<close>

definition correct_ab_filenames :: "string list \<Rightarrow> dir \<Rightarrow> unit result \<times> dir" where
  "correct_ab_filenames listing images = for_each slot_body listing images"

text \<open>
  The partition token of a file name is a notion of the specification, not a function of
  the source. Its data model has a raw image file named \<open><baseName>.<ext...>\<close>, where the
  base name is the partition token, optionally followed by a slot suffix. So the base name
  is the name with its extensions cut off (the whole name when there are none), and the
  token is the base name without a trailing \<open>_a\<close> or \<open>_b\<close>. The stem that the source
  computes, \<open>get_filename_without_extensions\<close>, is not used here: it is empty for a name
  without extensions.
\<close>

definition base_name :: "string \<Rightarrow> string" where
  "base_name file = take (length file - length (get_filename_suffixes file)) file"

definition partition_token :: "string \<Rightarrow> string" where
  "partition_token file =
     (let base = base_name file
      in if endswith base ''_a'' \<or> endswith base ''_b''
         then take (length base - 2) base
         else base)"

section \<open>PartitionExtractor: extract_partitions\<close>

text \<open>
  The output directory, as far as \<open>extract_partitions\<close> writes to it: the
  per-partition subdirectories \<open><partition>/\<close> (each with the files the extraction tool
  left below it, by relative path), the raw copies \<open><partition>.img\<close> in its root, and
  the messages of \<open>LOGI\<close> and \<open>LOGE\<close>. The staging directory is a different directory
  (in the orchestrator it is the subdirectory \<open>temp_raw_images\<close> of the output directory)
  and is only read here.
\<close>

type_synonym tree = "(string \<times> content) list"

datatype log_entry = LOGI string | LOGE string

record out_state =
  out_dirs :: "string \<rightharpoonup> tree"
  out_files :: "string \<rightharpoonup> content"
  out_log :: "log_entry list"

text \<open>
  \<open>extract_bootimg\<close> and \<open>sevenz\<close> are collaborators outside the source at hand; each is a
  parameter. A collaborator is given the partition name (which fixes the image path and
  the destination \<open>output_path / partition\<close>), the content of the image and what is at the
  destination so far; it answers with the exception it raised, if any, and with what it
  left at the destination. It writes below its destination only. \<open>format_exception\<close>, of
  an external library, is a parameter as well.
\<close>

type_synonym tool = "string \<Rightarrow> content \<Rightarrow> tree option \<Rightarrow> exn option \<times> tree option"

text \<open>
  One iteration of the loop of \<open>extract_partitions\<close>, on the partition \<open>part\<close> (the
  loop variable \<open>partition\<close> of the source). The handler of the boot-image
  branch is \<open>except Exception\<close>; the handler of the filesystem branch is
  \<open>except CalledProcessError\<close>, so any other exception of \<open>sevenz\<close> propagates.
\<close>

definition extract_partition ::
  "tool \<Rightarrow> tool \<Rightarrow> (exn \<Rightarrow> string) \<Rightarrow> dir \<Rightarrow> string \<Rightarrow> out_state \<Rightarrow> unit result \<times> out_state" where
  "extract_partition extract_bootimg sevenz format_exception raw_images part out =
     (case map_of PARTITIONS part of
        None \<Rightarrow> (Raised KeyError, out)
      | Some partition_type \<Rightarrow>
          (case raw_images (part @ ''.img'') of
             None \<Rightarrow> (Returned (), out)
           | Some img \<Rightarrow>
               (let out1 = out\<lparr>out_log := out_log out @ [LOGI (''Extracting '' @ part)]\<rparr>
                in case
                     (if partition_type = BOOTIMAGE then
                        (case extract_bootimg part img (out_dirs out1 part) of
                           (None, t) \<Rightarrow>
                             (Returned (), out1\<lparr>out_dirs := (out_dirs out1)(part := t)\<rparr>)
                         | (Some e, t) \<Rightarrow>
                             (Returned (),
                              out1\<lparr>out_dirs := (out_dirs out1)(part := t),
                                   out_log := out_log out1 @
                                     [LOGE (''Failed to extract '' @ part @ ''.img''),
                                      LOGE (format_exception e)]\<rparr>))
                      else if partition_type = FILESYSTEM then
                        (case sevenz part img (out_dirs out1 part) of
                           (None, t) \<Rightarrow>
                             (Returned (), out1\<lparr>out_dirs := (out_dirs out1)(part := t)\<rparr>)
                         | (Some (CalledProcessError captured), t) \<Rightarrow>
                             (Returned (),
                              out1\<lparr>out_dirs := (out_dirs out1)(part := t),
                                   out_log := out_log out1 @
                                     [LOGE (''Error extracting '' @ part @ ''.img''),
                                      LOGE captured]\<rparr>)
                         | (Some e, t) \<Rightarrow>
                             (Raised e, out1\<lparr>out_dirs := (out_dirs out1)(part := t)\<rparr>))
                      else (Returned (), out1))
                   of
                     (Raised e, out2) \<Rightarrow> (Raised e, out2)
                   | (Returned u, out2) \<Rightarrow>
                       if partition_type = RAW \<or> partition_type = BOOTIMAGE
                       then (Returned (),
                             out2\<lparr>out_files := (out_files out2)(part @ ''.img'' \<mapsto> img)\<rparr>)
                       else (Returned (), out2))))"

definition extract_partitions ::
  "tool \<Rightarrow> tool \<Rightarrow> (exn \<Rightarrow> string) \<Rightarrow> dir \<Rightarrow> out_state \<Rightarrow> unit result \<times> out_state" where
  "extract_partitions extract_bootimg sevenz format_exception raw_images out =
     for_each (extract_partition extract_bootimg sevenz format_exception raw_images)
       get_partition_names out"

text \<open>
  The one way out of the loop other than its end: the filesystem extraction of \<open>part\<close>
  raises an exception that the handler around \<open>sevenz\<close> does not catch. That is, \<open>part\<close> is
  of type \<open>FILESYSTEM\<close>, its image is present, and \<open>sevenz\<close>, run on the image with what the
  output directory has at the destination, raises something other than
  \<open>CalledProcessError\<close>.
\<close>

definition escapes :: "tool \<Rightarrow> dir \<Rightarrow> out_state \<Rightarrow> string \<Rightarrow> bool" where
  "escapes sevenz raw_images out part =
     (map_of PARTITIONS part = Some FILESYSTEM \<and>
      (case raw_images (part @ ''.img'') of
         None \<Rightarrow> False
       | Some img \<Rightarrow>
           (case fst (sevenz part img (out_dirs out part)) of
              None \<Rightarrow> False
            | Some (CalledProcessError captured) \<Rightarrow> False
            | Some e \<Rightarrow> True)))"

text \<open>
  The partitions the loop gets to: those of the declaration order up to and including the
  first one whose filesystem extraction raises an exception that is not caught, and all
  of them when there is none.
\<close>

definition reached :: "tool \<Rightarrow> dir \<Rightarrow> out_state \<Rightarrow> string list" where
  "reached sevenz raw_images out =
     takeWhile (\<lambda>part. \<not> escapes sevenz raw_images out part) get_partition_names @
     take 1 (dropWhile (\<lambda>part. \<not> escapes sevenz raw_images out part) get_partition_names)"


section \<open>Orchestrator: dumpyara (dumpyara.py)\<close>

text \<open>
  The state the orchestrator works on is what is found at \<open>path = output_path / file.stem\<close>:
  nothing, a regular file, or a directory with its entries by name. An entry is a file or
  a subdirectory (with the files below it, by relative path).
\<close>

datatype node = File content | Dir tree

datatype world = Absent | RegularFile content | Directory "string \<rightharpoonup> node"

text \<open>
  \<open>path.mkdir(parents=True)\<close> has no \<open>exist_ok\<close>: it raises when the path exists. The
  parents are taken to be creatable.
\<close>

definition mkdir_path :: "world \<Rightarrow> unit result \<times> world" where
  "mkdir_path w =
     (case w of
        Absent \<Rightarrow> (Returned (), Directory Map.empty)
      | RegularFile c \<Rightarrow> (Raised FileExistsError, w)
      | Directory es \<Rightarrow> (Raised FileExistsError, w))"

text \<open>\<open>(path / name).mkdir()\<close>.\<close>

definition mkdir_child :: "string \<Rightarrow> world \<Rightarrow> unit result \<times> world" where
  "mkdir_child name w =
     (case w of
        Absent \<Rightarrow> (Raised FileNotFoundError, w)
      | RegularFile c \<Rightarrow> (Raised NotADirectoryError, w)
      | Directory es \<Rightarrow>
          if es name = None then (Returned (), Directory (es(name \<mapsto> Dir [])))
          else (Raised FileExistsError, w))"

text \<open>\<open>(path / name).exists()\<close>.\<close>

definition child_exists :: "string \<Rightarrow> world \<Rightarrow> bool" where
  "child_exists name w =
     (case w of
        Absent \<Rightarrow> False
      | RegularFile c \<Rightarrow> False
      | Directory es \<Rightarrow> es name \<noteq> None)"

definition child :: "string \<Rightarrow> world \<Rightarrow> node option" where
  "child name w =
     (case w of
        Absent \<Rightarrow> None
      | RegularFile c \<Rightarrow> None
      | Directory es \<Rightarrow> es name)"

text \<open>\<open>(path / name).is_file()\<close>.\<close>

definition is_regular_file :: "string \<Rightarrow> world \<Rightarrow> bool" where
  "is_regular_file name w =
     (case child name w of
        None \<Rightarrow> False
      | Some (File c) \<Rightarrow> True
      | Some (Dir t) \<Rightarrow> False)"

text \<open>\<open>(path / name).write_text(data)\<close>: creates the file or replaces its content.\<close>

definition write_text :: "string \<Rightarrow> content \<Rightarrow> world \<Rightarrow> unit result \<times> world" where
  "write_text name data w =
     (case w of
        Absent \<Rightarrow> (Raised FileNotFoundError, w)
      | RegularFile c \<Rightarrow> (Raised NotADirectoryError, w)
      | Directory es \<Rightarrow>
          (case es name of
             Some (Dir t) \<Rightarrow> (Raised IsADirectoryError, w)
           | Some (File c) \<Rightarrow> (Returned (), Directory (es(name \<mapsto> File data)))
           | None \<Rightarrow> (Returned (), Directory (es(name \<mapsto> File data)))))"

text \<open>
  Modelled from the spec: \<open>rmtree_recursive\<close> of \<open>dumpyara.utils.files\<close> is not among the
  sources at hand. The specification has the cleanup "remove both temporary directories
  if they exist": called on a directory, the helper removes it with everything below it.
  It is a removal of a directory tree, as \<open>shutil.rmtree\<close> is: called on a regular file
  it raises \<open>NotADirectoryError\<close> and leaves the file, and on a missing path it raises
  \<open>FileNotFoundError\<close>.
\<close>

definition rmtree_recursive :: "string \<Rightarrow> world \<Rightarrow> unit result \<times> world" where
  "rmtree_recursive name w =
     (case w of
        Absent \<Rightarrow> (Raised FileNotFoundError, w)
      | RegularFile c \<Rightarrow> (Raised NotADirectoryError, w)
      | Directory es \<Rightarrow>
          (case es name of
             None \<Rightarrow> (Raised FileNotFoundError, w)
           | Some (File c) \<Rightarrow> (Raised NotADirectoryError, w)
           | Some (Dir t) \<Rightarrow> (Returned (), Directory (es(name := None)))))"

text \<open>Python's \<open>sep.join(xs)\<close>.\<close>

fun str_join :: "string \<Rightarrow> string list \<Rightarrow> string" where
  "str_join sep [] = []"
| "str_join sep [x] = x"
| "str_join sep (x # y # ys) = x @ sep @ str_join sep (y # ys)"

text \<open>
  \<open>step_1\<close>, \<open>step_2\<close> and \<open>step_3\<close> (modules \<open>dumpyara.steps\<close>) and
  \<open>get_recursive_files_list\<close> are not among the sources at hand, and the sort key
  \<open>strcoll_files_key\<close> is of an external library and depends on the locale: all are
  parameters. A step is called with paths below \<open>path\<close>; it may change what is there and
  may raise.
\<close>

type_synonym step = "world \<Rightarrow> unit result \<times> world"

text \<open>Lines 29 to 41: the three directories are made, then the three steps run.\<close>

definition dumpyara_steps :: "step \<Rightarrow> step \<Rightarrow> step \<Rightarrow> world \<Rightarrow> unit result \<times> world" where
  "dumpyara_steps step_1 step_2 step_3 w =
     for_each (\<lambda>statement. statement)
       [mkdir_path,
        mkdir_child ''temp_extracted_archive'',
        mkdir_child ''temp_raw_images'',
        step_1, step_2, step_3] w"

text \<open>
  Lines 43 to 54: the files below \<open>path\<close> are listed and sorted, and the manifest
  \<open>all_files.txt\<close> is written: one path per line, each line ended by a newline.
\<close>

definition manifest_text :: "(world \<Rightarrow> string list) \<Rightarrow> (string list \<Rightarrow> string list) \<Rightarrow> world \<Rightarrow> string" where
  "manifest_text get_recursive_files_list strcoll_sorted w =
     str_join [CHR 0x0A] (strcoll_sorted (get_recursive_files_list w)) @ [CHR 0x0A]"

definition finalize :: "(world \<Rightarrow> string list) \<Rightarrow> (string list \<Rightarrow> string list) \<Rightarrow> step" where
  "finalize get_recursive_files_list strcoll_sorted w =
     write_text ''all_files.txt'' (manifest_text get_recursive_files_list strcoll_sorted w) w"

text \<open>The body of the \<open>try\<close>.\<close>

definition dumpyara_try ::
  "step \<Rightarrow> step \<Rightarrow> step \<Rightarrow> (world \<Rightarrow> string list) \<Rightarrow> (string list \<Rightarrow> string list) \<Rightarrow> step" where
  "dumpyara_try step_1 step_2 step_3 get_recursive_files_list strcoll_sorted w =
     (case dumpyara_steps step_1 step_2 step_3 w of
        (Raised e, w') \<Rightarrow> (Raised e, w')
      | (Returned u, w') \<Rightarrow> finalize get_recursive_files_list strcoll_sorted w')"

text \<open>
  The \<open>finally\<close> block. An exception of the first removal leaves the block, so the second
  removal is then not tried.
\<close>

definition cleanup :: "bool \<Rightarrow> world \<Rightarrow> unit result \<times> world" where
  "cleanup debug w =
     (if \<not> debug then
        (case (if child_exists ''temp_extracted_archive'' w
               then rmtree_recursive ''temp_extracted_archive'' w
               else (Returned (), w)) of
           (Raised e, w1) \<Rightarrow> (Raised e, w1)
         | (Returned u, w1) \<Rightarrow>
             if child_exists ''temp_raw_images'' w1
             then rmtree_recursive ''temp_raw_images'' w1
             else (Returned (), w1))
      else (Returned (), w))"

text \<open>
  \<open>dumpyara\<close>: the \<open>try\<close> body, then the \<open>finally\<close> block on whatever state the body left.
  An exception raised in the \<open>finally\<close> block replaces the outcome of the body; otherwise
  that outcome stands (the returned path, here \<open>Returned ()\<close>, or the exception of the body).
\<close>

definition dumpyara ::
  "step \<Rightarrow> step \<Rightarrow> step \<Rightarrow> (world \<Rightarrow> string list) \<Rightarrow> (string list \<Rightarrow> string list) \<Rightarrow>
     bool \<Rightarrow> world \<Rightarrow> unit result \<times> world" where
  "dumpyara step_1 step_2 step_3 get_recursive_files_list strcoll_sorted debug w =
     (case dumpyara_try step_1 step_2 step_3 get_recursive_files_list strcoll_sorted w of
        (r, w') \<Rightarrow>
          (case cleanup debug w' of
             (Raised e, w'') \<Rightarrow> (Raised e, w'')
           | (Returned u, w'') \<Rightarrow> (r, w'')))"

section \<open>Auxiliary notions for the proofs\<close>

text \<open>
  The joined extensions of a file name that has extensions: they start with a dot and do
  not end with one.
\<close>

definition valid_sfx :: "string \<Rightarrow> bool" where
  "valid_sfx s = (s \<noteq> [] \<and> hd s = CHR ''.'' \<and> last s \<noteq> CHR ''.'')"

text \<open>
  The part of \<open>slot_body\<close> that depends on the file name only: the recognised token and
  the extensions of a slotted file name, when the name passes the checks of the loop.
\<close>

definition slot_group :: "string \<Rightarrow> (string \<times> string) option" where
  "slot_group file =
     (let st = get_filename_without_extensions file
      in if \<not> endswith st ''_a'' \<and> \<not> endswith st ''_b'' then None
         else (let u = removesuffix st (drop (length st - 2) st)
               in if u \<in> set get_partition_names_with_alias
                  then Some (u, get_filename_suffixes file) else None))"

text \<open>
  The three paths of one token and one extension string, read off a directory: the
  unslotted file, the \<open>_a\<close> file and the \<open>_b\<close> file; and what one loop iteration
  on entry \<open>f\<close> does to them.
\<close>

definition proj :: "string \<Rightarrow> string \<Rightarrow> dir \<Rightarrow> content option \<times> content option \<times> content option" where
  "proj u s d = (d (u @ s), d (u @ ''_a'' @ s), d (u @ ''_b'' @ s))"

definition tstep :: "string \<Rightarrow> string \<Rightarrow> string \<Rightarrow>
    content option \<times> content option \<times> content option \<Rightarrow>
    content option \<times> content option \<times> content option" where
  "tstep a b f t =
     (case t of (N, A, B) \<Rightarrow>
        if f = a then (if A = None then t else if N \<noteq> None then (N, None, B) else (A, None, B))
        else if f = b then
          (if B = None then t else if N \<noteq> None then (N, A, None)
           else if A \<noteq> None then (A, None, B) else (B, None, None))
        else t)"

section \<open>File names\<close>

lemma split_concat: "concat (map ((#) c) (split_on c xs)) = c # xs"
  by (induction xs) (auto split: list.splits)

lemma split_tl: "concat (map ((#) c) (tl (split_on c xs))) = dropWhile (\<lambda>x. x \<noteq> c) xs"
  by (induction xs) (auto split: list.splits simp: split_concat)

lemma endswith_iff: "endswith s suf \<longleftrightarrow> (\<exists>p. s = p @ suf)"
  unfolding endswith_def
  by (metis append_eq_conv_conj append_take_drop_id diff_add_inverse2 le_add2 length_append)

lemma removesuffix_append: "suf \<noteq> [] \<Longrightarrow> removesuffix (p @ suf) suf = p"
  by (auto simp: removesuffix_def endswith_iff)

lemma removesuffix_empty: "removesuffix s [] = []"
  by (simp add: removesuffix_def endswith_def)

lemma sfx_eq: "get_filename_suffixes f =
  (if endswith f ''.'' then [] else dropWhile (\<lambda>x. x \<noteq> CHR ''.'') (dropWhile (\<lambda>c. c = CHR ''.'') f))"
  by (simp add: get_filename_suffixes_def suffixes_def split_tl)

lemma names_ok: "list_all (\<lambda>u. u \<noteq> [] \<and> CHR ''.'' \<notin> set u \<and> \<not> endswith u ''_a'' \<and> \<not> endswith u ''_b'')
   get_partition_names_with_alias"
  by (simp add: get_partition_names_with_alias_def get_partition_names_def PARTITIONS_def
      ALTERNATIVE_PARTITION_NAMES_def endswith_def)

lemma known_name:
  assumes "u \<in> set get_partition_names_with_alias"
  shows "u \<noteq> []" "CHR ''.'' \<notin> set u" "\<not> endswith u ''_a''" "\<not> endswith u ''_b''"
  using assms names_ok by (auto simp: list_all_iff)

lemma endswith_dot: "endswith f ''.'' \<longleftrightarrow> (f \<noteq> [] \<and> last f = CHR ''.'')"
  by (metis endswith_iff last_snoc snoc_eq_iff_butlast)

lemma sfx_is_suffix: "\<exists>p. f = p @ get_filename_suffixes f"
proof -
  have "suffix (get_filename_suffixes f) f"
    by (auto simp: sfx_eq intro: suffix_order.trans [OF suffix_dropWhile suffix_dropWhile])
  then show ?thesis by (auto simp: suffix_def)
qed

lemma stem_no_extension:
  "get_filename_suffixes f = [] \<Longrightarrow> get_filename_without_extensions f = []"
  by (simp add: get_filename_without_extensions_def removesuffix_empty)

lemma stem_sfx:
  assumes "get_filename_suffixes f \<noteq> []"
  shows "get_filename_without_extensions f @ get_filename_suffixes f = f"
proof -
  obtain p where p: "f = p @ get_filename_suffixes f" using sfx_is_suffix by blast
  have "removesuffix (p @ get_filename_suffixes f) (get_filename_suffixes f) = p"
    using assms by (rule removesuffix_append)
  with p show ?thesis by (simp add: get_filename_without_extensions_def)
qed

lemma base_name_sfx: "base_name f @ get_filename_suffixes f = f"
proof -
  obtain p where p: "f = p @ get_filename_suffixes f" using sfx_is_suffix by blast
  have "take (length (p @ get_filename_suffixes f) - length (get_filename_suffixes f))
          (p @ get_filename_suffixes f) = p" by simp
  with p show ?thesis by (simp add: base_name_def)
qed

lemma sfx_valid:
  assumes False: "get_filename_suffixes f \<noteq> []"
  shows "valid_sfx (get_filename_suffixes f)"
proof -
  from False have nd: "\<not> endswith f ''.''" by (auto simp: sfx_eq)
  have eq: "get_filename_suffixes f = dropWhile (\<lambda>x. x \<noteq> CHR ''.'') (dropWhile (\<lambda>c. c = CHR ''.'') f)"
    using nd by (simp add: sfx_eq)
  have h: "hd (get_filename_suffixes f) = CHR ''.''"
    using False hd_dropWhile [of "\<lambda>x. x \<noteq> CHR ''.''" "dropWhile (\<lambda>c. c = CHR ''.'') f"]
    unfolding eq by auto
  obtain p where p: "f = p @ get_filename_suffixes f" using sfx_is_suffix by blast
  have "last f = last (get_filename_suffixes f)" using False p by (metis last_appendR)
  moreover have "f \<noteq> []" using False p by auto
  ultimately have "last (get_filename_suffixes f) \<noteq> CHR ''.''" using nd by (simp add: endswith_dot)
  with h False show ?thesis by (simp add: valid_sfx_def)
qed

lemma sfx_decomp:
  assumes "w \<noteq> []" "CHR ''.'' \<notin> set w" "valid_sfx s"
  shows "get_filename_suffixes (w @ s) = s"
proof -
  have s: "s \<noteq> []" "hd s = CHR ''.''" "last s \<noteq> CHR ''.''"
    using assms(3) by (simp_all add: valid_sfx_def)
  then have "last (w @ s) \<noteq> CHR ''.''" by simp
  then have nd: "\<not> endswith (w @ s) ''.''" by (simp add: endswith_dot)
  have "hd w \<noteq> CHR ''.''" using assms by (cases w) auto
  then have d1: "dropWhile (\<lambda>c. c = CHR ''.'') (w @ s) = w @ s"
    using assms(1) by (cases w) auto
  have d2: "dropWhile (\<lambda>x. x \<noteq> CHR ''.'') (w @ s) = dropWhile (\<lambda>x. x \<noteq> CHR ''.'') s"
    using assms(2) by (intro dropWhile_append2) auto
  have d3: "dropWhile (\<lambda>x. x \<noteq> CHR ''.'') s = s"
    using s(1,2) by (cases s) simp_all
  show ?thesis using nd d1 d2 d3 by (simp add: sfx_eq)
qed

lemma stem_decomp:
  assumes "w \<noteq> []" "CHR ''.'' \<notin> set w" "valid_sfx s"
  shows "get_filename_without_extensions (w @ s) = w"
  using sfx_decomp [OF assms] assms(3)
  by (simp add: get_filename_without_extensions_def removesuffix_append valid_sfx_def)

lemma base_name_decomp:
  assumes "w \<noteq> []" "CHR ''.'' \<notin> set w" "valid_sfx s"
  shows "base_name (w @ s) = w"
  using sfx_decomp [OF assms] by (simp add: base_name_def)

lemma sfx_no_dot:
  assumes "CHR ''.'' \<notin> set w"
  shows "get_filename_suffixes w = []"
proof -
  have "dropWhile (\<lambda>c. c = CHR ''.'') w = w" using assms by (cases w) auto
  moreover have "dropWhile (\<lambda>x. x \<noteq> CHR ''.'') w = []"
    using assms by (simp add: dropWhile_eq_Nil_conv) blast
  ultimately show ?thesis by (simp add: sfx_eq)
qed

lemma base_name_no_dot: "CHR ''.'' \<notin> set w \<Longrightarrow> base_name w = w"
  by (simp add: base_name_def sfx_no_dot)

lemma endswith_last2:
  assumes "endswith st x" "length x = 2"
  shows "drop (length st - 2) st = x" "removesuffix st (drop (length st - 2) st) = take (length st - 2) st"
        "st = take (length st - 2) st @ x"
proof -
  obtain p where p: "st = p @ x" using assms by (auto simp: endswith_iff)
  show a: "drop (length st - 2) st = x" using p assms by simp
  have "x \<noteq> []" using assms(2) by auto
  then show "removesuffix st (drop (length st - 2) st) = take (length st - 2) st"
    unfolding a using p assms by (simp add: removesuffix_append)
  show "st = take (length st - 2) st @ x" using p assms by simp
qed

lemma slot_group_SomeD:
  assumes "slot_group f = Some (u, s)"
  shows "u \<in> set get_partition_names_with_alias" "s = get_filename_suffixes f" "valid_sfx s"
        "f = u @ ''_a'' @ s \<or> f = u @ ''_b'' @ s"
proof -
  let ?st = "get_filename_without_extensions f"
  from assms have e: "endswith ?st ''_a'' \<or> endswith ?st ''_b''"
    by (auto simp: slot_group_def Let_def split: if_splits)
  from assms have u: "u = removesuffix ?st (drop (length ?st - 2) ?st)"
    and k: "u \<in> set get_partition_names_with_alias" and s: "s = get_filename_suffixes f"
    by (auto simp: slot_group_def Let_def split: if_splits)
  show "u \<in> set get_partition_names_with_alias" by (rule k)
  show "s = get_filename_suffixes f" by (rule s)
  have "?st \<noteq> []" using e by (auto simp: endswith_def)
  then have ne: "get_filename_suffixes f \<noteq> []" using stem_no_extension by blast
  show "valid_sfx s" unfolding s using ne by (rule sfx_valid)
  from e show "f = u @ ''_a'' @ s \<or> f = u @ ''_b'' @ s"
  proof
    assume a: "endswith ?st ''_a''"
    have "?st = u @ ''_a''" using endswith_last2 [OF a] u by simp
    then show ?thesis using stem_sfx [OF ne] s by (metis append.assoc)
  next
    assume b: "endswith ?st ''_b''"
    have "?st = u @ ''_b''" using endswith_last2 [OF b] u by simp
    then show ?thesis using stem_sfx [OF ne] s by (metis append.assoc)
  qed
qed

lemma slotted_no_dot:
  assumes "u \<in> set get_partition_names_with_alias"
  shows "CHR ''.'' \<notin> set (u @ ''_a'')" "CHR ''.'' \<notin> set (u @ ''_b'')"
  using known_name [OF assms] by auto

lemma slot_group_aux:
  assumes k: "u \<in> set get_partition_names_with_alias" and v: "valid_sfx s"
    and x: "x = ''_a'' \<or> x = ''_b''" and f: "f = (u @ x) @ s"
  shows "slot_group f = Some (u, s)"
proof -
  have nd: "CHR ''.'' \<notin> set (u @ x)" "u @ x \<noteq> []"
    using slotted_no_dot [OF k] x by auto
  have st: "get_filename_without_extensions f = u @ x"
    unfolding f by (rule stem_decomp [OF nd(2) nd(1) v])
  have sf: "get_filename_suffixes f = s"
    unfolding f by (rule sfx_decomp [OF nd(2) nd(1) v])
  have e: "endswith (u @ x) x" by (auto simp: endswith_iff)
  have l: "length x = 2" using x by auto
  have d: "drop (length (u @ x) - 2) (u @ x) = x" using l by simp
  have r: "removesuffix (u @ x) x = u" using x by (intro removesuffix_append) auto
  have "endswith (u @ x) ''_a'' \<or> endswith (u @ x) ''_b''" using e x by auto
  then show ?thesis
    unfolding slot_group_def Let_def st sf d r using k by auto
qed

lemma slot_group_slotted:
  assumes "u \<in> set get_partition_names_with_alias" "valid_sfx s"
  shows "slot_group (u @ ''_a'' @ s) = Some (u, s)" "slot_group (u @ ''_b'' @ s) = Some (u, s)"
  using slot_group_aux [OF assms, of "''_a''"] slot_group_aux [OF assms, of "''_b''"] by simp_all

lemma slot_group_unslotted:
  assumes "u \<in> set get_partition_names_with_alias" "valid_sfx s"
  shows "slot_group (u @ s) = None"
proof -
  have "get_filename_without_extensions (u @ s) = u"
    using known_name [OF assms(1)] assms(2) by (auto intro!: stem_decomp)
  then show ?thesis using known_name [OF assms(1)] by (simp add: slot_group_def)
qed

section \<open>The loop of SlotResolver, token by token\<close>

lemma slot_body_eq:
  "slot_body f d =
     (case slot_group f of
        None \<Rightarrow> (Returned (), d)
      | Some (u, s) \<Rightarrow>
          if d f = None then (Returned (), d)
          else if d (u @ s) \<noteq> None then (Returned (), d(f := None))
          else if d (u @ ''_a'' @ s) \<noteq> None
            then (Returned (), (d(u @ ''_a'' @ s := None))(u @ s := d (u @ ''_a'' @ s)))
          else if d (u @ ''_b'' @ s) \<noteq> None
            then (Returned (), (d(u @ ''_b'' @ s := None))(u @ s := d (u @ ''_b'' @ s)))
          else (Returned (), d))"
  unfolding slot_body_def slot_group_def Let_def is_file_def unlink_def move_def
  by (auto split: option.splits)

lemma path_unique:
  assumes k: "u \<in> set get_partition_names_with_alias" "u' \<in> set get_partition_names_with_alias"
    and v: "valid_sfx s" "valid_sfx s'"
    and x: "x = [] \<or> x = ''_a'' \<or> x = ''_b''" "x' = [] \<or> x' = ''_a'' \<or> x' = ''_b''"
    and eq: "(u @ x) @ s = (u' @ x') @ s'"
  shows "u = u' \<and> x = x' \<and> s = s'"
proof -
  have nd: "u @ x \<noteq> []" "CHR ''.'' \<notin> set (u @ x)" "u' @ x' \<noteq> []" "CHR ''.'' \<notin> set (u' @ x')"
    using known_name [OF k(1)] known_name [OF k(2)] x by auto
  have "get_filename_suffixes ((u @ x) @ s) = s" by (rule sfx_decomp [OF nd(1,2) v(1)])
  moreover have "get_filename_suffixes ((u' @ x') @ s') = s'" by (rule sfx_decomp [OF nd(3,4) v(2)])
  ultimately have s: "s = s'" using eq by simp
  with eq have ux: "u @ x = u' @ x'" by simp
  have "x = x'"
    using ux x known_name(3,4) [OF k(1)] known_name(3,4) [OF k(2)]
    by (auto simp: endswith_iff append_eq_append_conv2 append_eq_Cons_conv Cons_eq_append_conv)
  with ux s show ?thesis by simp
qed

lemma slot_body_returns: "fst (slot_body f d) = Returned ()"
  by (simp add: slot_body_eq split: option.splits)

lemma for_each_slot_body:
  "for_each slot_body l d = (Returned (), fold (\<lambda>f d. snd (slot_body f d)) l d)"
proof (induction l arbitrary: d)
  case Nil
  show ?case by simp
next
  case (Cons f l)
  obtain d' where "slot_body f d = (Returned (), d')"
    using slot_body_returns [of f d] by (cases "slot_body f d") auto
  then show ?case using Cons.IH [of d'] by simp
qed

lemma group_paths_distinct:
  assumes k: "u \<in> set get_partition_names_with_alias" and v: "valid_sfx s"
  shows "u @ ''_a'' @ s \<noteq> u @ s" "u @ ''_b'' @ s \<noteq> u @ s" "u @ ''_a'' @ s \<noteq> u @ ''_b'' @ s"
  using path_unique [OF k k v v, of "''_a''" "[]"] path_unique [OF k k v v, of "''_b''" "[]"]
    path_unique [OF k k v v, of "''_a''" "''_b''"]
  by auto

lemma other_group_paths:
  assumes k: "u \<in> set get_partition_names_with_alias" "u' \<in> set get_partition_names_with_alias"
    and v: "valid_sfx s" "valid_sfx s'" and ne: "(u', s') \<noteq> (u, s)"
    and p: "p = u @ s \<or> p = u @ ''_a'' @ s \<or> p = u @ ''_b'' @ s"
  shows "p \<noteq> u' @ s'" "p \<noteq> u' @ ''_a'' @ s'" "p \<noteq> u' @ ''_b'' @ s'"
proof -
  obtain x where x: "x = [] \<or> x = ''_a'' \<or> x = ''_b''" and px: "p = (u @ x) @ s"
    using p by fastforce
  have r: False if x': "x' = [] \<or> x' = ''_a'' \<or> x' = ''_b''" and px': "p = (u' @ x') @ s'" for x'
  proof -
    have "(u @ x) @ s = (u' @ x') @ s'" by (rule trans [OF px [symmetric] px'])
    from path_unique [OF k v x x' this] ne show False by simp
  qed
  show "p \<noteq> u' @ s'" using r [of "[]"] by fastforce
  show "p \<noteq> u' @ ''_a'' @ s'" using r [of "''_a''"] by fastforce
  show "p \<noteq> u' @ ''_b'' @ s'" using r [of "''_b''"] by fastforce
qed

lemma slot_body_frame:
  assumes g: "slot_group f = Some (u', s')" and "p \<noteq> u' @ s'" "p \<noteq> u' @ ''_a'' @ s'" "p \<noteq> u' @ ''_b'' @ s'"
  shows "snd (slot_body f d) p = d p"
  using slot_group_SomeD(4) [OF g] assms by (auto simp: slot_body_eq)

lemma proj_step:
  assumes k: "u \<in> set get_partition_names_with_alias" and v: "valid_sfx s"
  shows "proj u s (snd (slot_body f d)) = tstep (u @ ''_a'' @ s) (u @ ''_b'' @ s) f (proj u s d)"
proof (cases "slot_group f")
  case None
  then have "f \<noteq> u @ ''_a'' @ s" "f \<noteq> u @ ''_b'' @ s"
    using slot_group_slotted [OF k v] by auto
  then show ?thesis using None by (simp add: slot_body_eq tstep_def proj_def)
next
  case (Some g)
  obtain u' s' where g: "g = (u', s')" by (cases g)
  have sg: "slot_group f = Some (u', s')" using Some g by simp
  note D = slot_group_SomeD [OF sg]
  show ?thesis
  proof (cases "(u', s') = (u, s)")
    case True
    then have sg': "slot_group f = Some (u, s)" using sg by simp
    have "f = u @ ''_a'' @ s \<or> f = u @ ''_b'' @ s" using D(4) True by simp
    then show ?thesis
      using group_paths_distinct [OF k v] sg'
      by (auto simp: slot_body_eq tstep_def proj_def)
  next
    case False
    have fne: "f \<noteq> u @ ''_a'' @ s" "f \<noteq> u @ ''_b'' @ s"
      using slot_group_slotted [OF k v] sg False by auto
    have "snd (slot_body f d) p = d p"
      if "p = u @ s \<or> p = u @ ''_a'' @ s \<or> p = u @ ''_b'' @ s" for p
      using other_group_paths [OF k D(1) v D(3) False that] slot_body_frame [OF sg] by blast
    then show ?thesis using fne by (simp add: tstep_def proj_def)
  qed
qed

lemma proj_run:
  assumes k: "u \<in> set get_partition_names_with_alias" and v: "valid_sfx s"
  shows "proj u s (snd (correct_ab_filenames l d)) = fold (tstep (u @ ''_a'' @ s) (u @ ''_b'' @ s)) l (proj u s d)"
  unfolding correct_ab_filenames_def for_each_slot_body
  by (induction l arbitrary: d) (simp_all add: proj_step [OF k v])

lemma correct_ab_returns: "fst (correct_ab_filenames l d) = Returned ()"
  by (simp add: correct_ab_filenames_def for_each_slot_body)

section \<open>The fate of one token's three files\<close>

lemma tfold_skip:
  "a \<notin> set l \<Longrightarrow> b \<notin> set l \<Longrightarrow> fold (tstep a b) l t = t"
  by (induction l arbitrary: t) (auto simp: tstep_def)

lemma tfold_unslotted_kept:
  "N \<noteq> None \<Longrightarrow> fst (fold (tstep a b) l (N, A, B)) = N"
  by (induction l arbitrary: A B) (auto simp: tstep_def)

lemma tfold_b_gone:
  "fold (tstep a b) l (N, A, None) = (N', A', B') \<Longrightarrow> B' = None"
  by (induction l arbitrary: N A) (auto simp: tstep_def split: if_splits)

lemma tfold_b_deleted:
  "N \<noteq> None \<Longrightarrow> a \<noteq> b \<Longrightarrow> b \<in> set l \<Longrightarrow> fold (tstep a b) l (N, A, B) = (N', A', B') \<Longrightarrow> B' = None"
proof (induction l arbitrary: A B)
  case Nil
  then show ?case by simp
next
  case (Cons f l)
  show ?case
  proof (cases "f = b")
    case True
    then have "tstep a b f (N, A, B) = (N, A, None)" using Cons.prems by (auto simp: tstep_def)
    then show ?thesis using Cons.prems tfold_b_gone by auto
  next
    case False
    then have "tstep a b f (N, A, B) = (N, (if f = a then None else A), B)"
      using Cons.prems(1) by (auto simp: tstep_def)
    then show ?thesis using Cons.IH [of "if f = a then None else A" B] Cons.prems False by auto
  qed
qed


text \<open>Both slot files present and no unslotted file: the first of the two that is visited promotes \<open>_a\<close>.\<close>

lemma tfold_after_promotion_a_only:
  "b \<notin> set l \<Longrightarrow> fold (tstep a b) l (Some ca, None, B) = (Some ca, None, B)"
  by (induction l) (auto simp: tstep_def)

lemma tfold_final:
  "fold (tstep a b) l (Some ca, None, None) = (Some ca, None, None)"
  by (induction l) (auto simp: tstep_def)

lemma tfold_after_promotion_b:
  "a \<noteq> b \<Longrightarrow> b \<in> set l \<Longrightarrow> fold (tstep a b) l (Some ca, None, Some cb) = (Some ca, None, None)"
proof (induction l)
  case Nil
  then show ?case by simp
next
  case (Cons f l)
  show ?case
  proof (cases "f = b")
    case True
    then have "tstep a b f (Some ca, None, Some cb) = (Some ca, None, None)"
      using Cons.prems(1) by (auto simp: tstep_def)
    then show ?thesis by (simp add: tfold_final)
  next
    case False
    then have "tstep a b f (Some ca, None, Some cb) = (Some ca, None, Some cb)"
      by (auto simp: tstep_def)
    then show ?thesis using Cons False by auto
  qed
qed

lemma tfold_dual:
  assumes "a \<noteq> b" "distinct l" "a \<in> set l" "b \<in> set l"
  shows "fold (tstep a b) l (None, Some ca, Some cb) =
           (Some ca, None, if b \<in> set (takeWhile (\<lambda>x. x \<noteq> a) l) then Some cb else None)"
  using assms
proof (induction l)
  case Nil
  then show ?case by simp
next
  case (Cons f l)
  consider (A) "f = a" | (B) "f = b" | (O) "f \<noteq> a" "f \<noteq> b" by blast
  then show ?case
  proof cases
    case A
    then have st: "tstep a b f (None, Some ca, Some cb) = (Some ca, None, Some cb)"
      by (simp add: tstep_def)
    have "b \<in> set l" using Cons.prems A by auto
    then have "fold (tstep a b) l (Some ca, None, Some cb) = (Some ca, None, None)"
      using tfold_after_promotion_b Cons.prems(1) by blast
    then show ?thesis using st A by simp
  next
    case B
    then have st: "tstep a b f (None, Some ca, Some cb) = (Some ca, None, Some cb)"
      using Cons.prems(1) by (simp add: tstep_def)
    have "b \<notin> set l" using Cons.prems B by auto
    then have "fold (tstep a b) l (Some ca, None, Some cb) = (Some ca, None, Some cb)"
      by (rule tfold_after_promotion_a_only)
    then show ?thesis using st B Cons.prems(1) by simp
  next
    case O
    then have st: "tstep a b f (None, Some ca, Some cb) = (None, Some ca, Some cb)"
      by (simp add: tstep_def)
    have "fold (tstep a b) l (None, Some ca, Some cb) =
           (Some ca, None, if b \<in> set (takeWhile (\<lambda>x. x \<noteq> a) l) then Some cb else None)"
      using Cons O by auto
    then show ?thesis using st O by simp
  qed
qed

lemma tfold_a_gone:
  "fold (tstep a b) l (N, None, B) = (N', A', B') \<Longrightarrow> A' = None"
  by (induction l arbitrary: N B) (auto simp: tstep_def split: if_splits)

lemma tfold_a_deleted:
  "N \<noteq> None \<Longrightarrow> a \<in> set l \<Longrightarrow> fold (tstep a b) l (N, A, B) = (N', A', B') \<Longrightarrow> A' = None"
proof (induction l arbitrary: A B)
  case Nil
  then show ?case by simp
next
  case (Cons f l)
  show ?case
  proof (cases "f = a")
    case True
    then have "tstep a b f (N, A, B) = (N, None, B)" using Cons.prems by (auto simp: tstep_def)
    then show ?thesis using Cons.prems tfold_a_gone by auto
  next
    case False
    then have "tstep a b f (N, A, B) = (N, A, (if f = b then None else B))"
      using Cons.prems(1) by (auto simp: tstep_def)
    then show ?thesis using Cons.IH [of A "if f = b then None else B"] Cons.prems False by auto
  qed
qed

lemma tfold_none: "fold (tstep a b) l (N, None, None) = (N, None, None)"
  by (induction l) (auto simp: tstep_def)

lemma tfold_only_a:
  "a \<in> set l \<Longrightarrow> fold (tstep a b) l (None, Some ca, None) = (Some ca, None, None)"
proof (induction l)
  case Nil
  then show ?case by simp
next
  case (Cons f l)
  show ?case
  proof (cases "f = a")
    case True
    then have "tstep a b f (None, Some ca, None) = (Some ca, None, None)" by (simp add: tstep_def)
    then show ?thesis by (simp add: tfold_none)
  next
    case False
    then have "tstep a b f (None, Some ca, None) = (None, Some ca, None)" by (simp add: tstep_def)
    then show ?thesis using Cons False by auto
  qed
qed

lemma tfold_only_b:
  "a \<noteq> b \<Longrightarrow> b \<in> set l \<Longrightarrow> fold (tstep a b) l (None, None, Some cb) = (Some cb, None, None)"
proof (induction l)
  case Nil
  then show ?case by simp
next
  case (Cons f l)
  show ?case
  proof (cases "f = b")
    case True
    then have "tstep a b f (None, None, Some cb) = (Some cb, None, None)"
      using Cons.prems(1) by (simp add: tstep_def)
    then show ?thesis by (simp add: tfold_none)
  next
    case False
    then have "tstep a b f (None, None, Some cb) = (None, None, Some cb)" by (simp add: tstep_def)
    then show ?thesis using Cons False by auto
  qed
qed

lemma tfold_clean:
  assumes ab: "a \<noteq> b" and dl: "distinct l"
    and ia: "A \<noteq> None \<Longrightarrow> a \<in> set l" and ib: "B \<noteq> None \<Longrightarrow> b \<in> set l"
    and no: "N = None \<Longrightarrow> A \<noteq> None \<Longrightarrow> B \<noteq> None \<Longrightarrow> b \<notin> set (takeWhile (\<lambda>x. x \<noteq> a) l)"
    and r: "fold (tstep a b) l (N, A, B) = (N', A', B')"
  shows "A' = None \<and> B' = None"
proof (cases "N = None")
  case False
  have "A' = None"
  proof (cases "A = None")
    case True then show ?thesis using r tfold_a_gone by blast
  next
    case F: False then show ?thesis using tfold_a_deleted [OF False ia r] by simp
  qed
  moreover have "B' = None"
  proof (cases "B = None")
    case True then show ?thesis using r tfold_b_gone by blast
  next
    case F: False then show ?thesis using tfold_b_deleted [OF False ab ib r] by simp
  qed
  ultimately show ?thesis by simp
next
  case N: True
  show ?thesis
  proof (cases A)
    case None
    show ?thesis
    proof (cases B)
      case B: None
      show ?thesis using r N None B by (simp add: tfold_none)
    next
      case (Some cb)
      then show ?thesis using r N None tfold_only_b [OF ab, of l cb] ib by simp
    qed
  next
    case (Some ca)
    show ?thesis
    proof (cases B)
      case None
      then show ?thesis using r N Some tfold_only_a [of a l b ca] ia by simp
    next
      case B: (Some cb)
      have "a \<in> set l" "b \<in> set l" using ia ib Some B by auto
      from tfold_dual [OF ab dl this, of ca cb] no N Some B r show ?thesis by simp
    qed
  qed
qed

lemma slot_noop:
  assumes "\<And>f. d f \<noteq> None \<Longrightarrow> slot_group f = None"
  shows "for_each slot_body l d = (Returned (), d)"
proof -
  have "snd (slot_body f d) = d" for f
    using assms [of f] by (cases "d f = None") (auto simp: slot_body_eq split: option.splits)
  then have "fold (\<lambda>f d. snd (slot_body f d)) l d = d"
    by (induction l) simp_all
  then show ?thesis by (simp add: for_each_slot_body)
qed

lemma token_of_group_path:
  assumes k: "u \<in> set get_partition_names_with_alias" and v: "valid_sfx s"
  shows "partition_token (u @ s) = u" "partition_token (u @ ''_a'' @ s) = u" "partition_token (u @ ''_b'' @ s) = u"
proof -
  have "base_name (u @ s) = u"
    using known_name [OF k] v by (auto intro!: base_name_decomp)
  then show "partition_token (u @ s) = u"
    using known_name [OF k] by (simp add: partition_token_def)
  have e: "endswith (u @ x) x" for x by (auto simp: endswith_iff)
  have "base_name ((u @ ''_a'') @ s) = u @ ''_a''"
    by (rule base_name_decomp) (use slotted_no_dot [OF k] v in auto)
  then have "partition_token ((u @ ''_a'') @ s) = u"
    unfolding partition_token_def Let_def using e [of "''_a''"] by simp
  then show "partition_token (u @ ''_a'' @ s) = u" by simp
  have "base_name ((u @ ''_b'') @ s) = u @ ''_b''"
    by (rule base_name_decomp) (use slotted_no_dot [OF k] v in auto)
  then have "partition_token ((u @ ''_b'') @ s) = u"
    unfolding partition_token_def Let_def using e [of "''_b''"] by simp
  then show "partition_token (u @ ''_b'' @ s) = u" by simp
qed

lemma slot_body_unknown:
  assumes "partition_token p \<notin> set get_partition_names_with_alias"
  shows "snd (slot_body f d) p = d p"
proof (cases "slot_group f")
  case None
  then show ?thesis by (simp add: slot_body_eq)
next
  case (Some g)
  obtain u s where g: "slot_group f = Some (u, s)" using Some by (cases g) auto
  note D = slot_group_SomeD [OF g]
  have "p \<noteq> u @ s" "p \<noteq> u @ ''_a'' @ s" "p \<noteq> u @ ''_b'' @ s"
    using token_of_group_path [OF D(1) D(3)] assms D(1) by auto
  then show ?thesis by (rule slot_body_frame [OF g])
qed

lemma slot_run_unknown:
  assumes "partition_token p \<notin> set get_partition_names_with_alias"
  shows "snd (correct_ab_filenames l d) p = d p"
  unfolding correct_ab_filenames_def for_each_slot_body
  by (induction l arbitrary: d) (simp_all add: slot_body_unknown [OF assms])

lemma valid_sfx_img: "valid_sfx ''.img''"
  by (simp add: valid_sfx_def)

lemma dual_slots_run:
  assumes k: "t \<in> set get_partition_names_with_alias"
    and a: "images (t @ ''_a.img'') = Some ca" and b: "images (t @ ''_b.img'') = Some cb"
    and n: "images (t @ ''.img'') = None"
    and l: "distinct listing" "set listing = dom images"
  shows "snd (correct_ab_filenames listing images) (t @ ''.img'') = Some ca"
    "snd (correct_ab_filenames listing images) (t @ ''_a.img'') = None"
    "snd (correct_ab_filenames listing images) (t @ ''_b.img'') =
       (if t @ ''_b.img'' \<in> set (takeWhile (\<lambda>x. x \<noteq> t @ ''_a.img'') listing) then Some cb else None)"
proof -
  let ?d = "snd (correct_ab_filenames listing images)"
  have inl: "t @ ''_a'' @ ''.img'' \<in> set listing" "t @ ''_b'' @ ''.img'' \<in> set listing"
    using a b l(2) by auto
  have ne: "t @ ''_a'' @ ''.img'' \<noteq> t @ ''_b'' @ ''.img''" by simp
  have "proj t ''.img'' ?d = fold (tstep (t @ ''_a'' @ ''.img'') (t @ ''_b'' @ ''.img'')) listing (proj t ''.img'' images)"
    by (rule proj_run [OF k valid_sfx_img])
  also have "proj t ''.img'' images = (None, Some ca, Some cb)"
    using a b n by (simp add: proj_def)
  also have "fold (tstep (t @ ''_a'' @ ''.img'') (t @ ''_b'' @ ''.img'')) listing (None, Some ca, Some cb) =
     (Some ca, None, if t @ ''_b'' @ ''.img'' \<in> set (takeWhile (\<lambda>x. x \<noteq> t @ ''_a'' @ ''.img'') listing) then Some cb else None)"
    by (rule tfold_dual [OF ne l(1) inl])
  finally have "proj t ''.img'' ?d = (Some ca, None, if t @ ''_b'' @ ''.img'' \<in> set (takeWhile (\<lambda>x. x \<noteq> t @ ''_a'' @ ''.img'') listing) then Some cb else None)" .
  then show "?d (t @ ''.img'') = Some ca" "?d (t @ ''_a.img'') = None"
    "?d (t @ ''_b.img'') =
       (if t @ ''_b.img'' \<in> set (takeWhile (\<lambda>x. x \<noteq> t @ ''_a.img'') listing) then Some cb else None)"
    by (simp_all add: proj_def)
qed

lemma redundant_slot_run:
  assumes k: "t \<in> set get_partition_names_with_alias"
    and n: "images (t @ ''.img'') = Some c" and b: "t @ ''_b.img'' \<in> set listing"
  shows "snd (correct_ab_filenames listing images) (t @ ''.img'') = Some c"
    "snd (correct_ab_filenames listing images) (t @ ''_b.img'') = None"
proof -
  let ?d = "snd (correct_ab_filenames listing images)"
  let ?a = "t @ ''_a'' @ ''.img''" and ?b = "t @ ''_b'' @ ''.img''"
  have ne: "?a \<noteq> ?b" by simp
  have bl: "?b \<in> set listing" using b by simp
  have p: "proj t ''.img'' ?d = fold (tstep ?a ?b) listing (Some c, images ?a, images ?b)"
    using proj_run [OF k valid_sfx_img, of listing images] n by (simp add: proj_def)
  obtain N' A' B' where r: "fold (tstep ?a ?b) listing (Some c, images ?a, images ?b) = (N', A', B')"
    by (metis prod_cases3)
  have "N' = Some c" using tfold_unslotted_kept [of "Some c" ?a ?b listing "images ?a" "images ?b"] r by simp
  moreover have "B' = None" using tfold_b_deleted [OF _ ne bl r] by simp
  ultimately show "?d (t @ ''.img'') = Some c" "?d (t @ ''_b.img'') = None"
    using p r by (simp_all add: proj_def)
qed

lemma known_boot: "''boot'' \<in> set get_partition_names_with_alias"
  by (simp add: get_partition_names_with_alias_def get_partition_names_def PARTITIONS_def)

lemma known_system: "''system'' \<in> set get_partition_names_with_alias"
  by (simp add: get_partition_names_with_alias_def get_partition_names_def PARTITIONS_def)

lemma slot_run_clean:
  assumes dl: "distinct listing" and sl: "set listing = dom images"
    and no: "\<And>t s. t \<in> set get_partition_names_with_alias \<Longrightarrow> valid_sfx s \<Longrightarrow>
               images (t @ s) = None \<Longrightarrow> images (t @ ''_a'' @ s) \<noteq> None \<Longrightarrow>
               images (t @ ''_b'' @ s) \<noteq> None \<Longrightarrow>
               t @ ''_b'' @ s \<notin> set (takeWhile (\<lambda>x. x \<noteq> t @ ''_a'' @ s) listing)"
    and g: "slot_group f = Some (u, s)"
  shows "snd (correct_ab_filenames listing images) f = None"
proof -
  let ?d = "snd (correct_ab_filenames listing images)"
  let ?a = "u @ ''_a'' @ s" and ?b = "u @ ''_b'' @ s"
  note D = slot_group_SomeD [OF g]
  have ne: "?a \<noteq> ?b" by (rule group_paths_distinct(3) [OF D(1) D(3)])
  define r where "r = fold (tstep ?a ?b) listing (images (u @ s), images ?a, images ?b)"
  obtain N' A' B' where r: "r = (N', A', B')"
    by (cases r) auto
  have ia: "images ?a \<noteq> None \<Longrightarrow> ?a \<in> set listing" and ib: "images ?b \<noteq> None \<Longrightarrow> ?b \<in> set listing"
    unfolding sl by (simp_all add: domIff)
  have "A' = None \<and> B' = None"
  proof (rule tfold_clean [OF ne dl ia ib _ r [unfolded r_def]])
    assume "images (u @ s) = None" "images ?a \<noteq> None" "images ?b \<noteq> None"
    then show "?b \<notin> set (takeWhile (\<lambda>x. x \<noteq> ?a) listing)"
      by (rule no [OF D(1) D(3)])
  qed
  moreover have p: "proj u s ?d = fold (tstep ?a ?b) listing (proj u s images)"
    by (rule proj_run [OF D(1) D(3)])
  have "(?d (u @ s), ?d ?a, ?d ?b) = (N', A', B')"
    using p unfolding proj_def r_def [symmetric] r .
  ultimately have "?d ?a = None \<and> ?d ?b = None" by simp
  then show ?thesis using D(4) by blast
qed

section \<open>Loops and one step of PartitionExtractor\<close>

lemma for_each_append:
  "for_each body (xs @ ys) s =
     (case for_each body xs s of
        (Raised e, s') \<Rightarrow> (Raised e, s')
      | (Returned u, s') \<Rightarrow> for_each body ys s')"
  by (induction xs arbitrary: s) (auto split: prod.splits result.splits)

lemma for_each_invariant:
  assumes "\<And>x s. x \<in> set xs \<Longrightarrow> P s \<Longrightarrow> P (snd (body x s))" and "P s"
  shows "P (snd (for_each body xs s))"
  using assms
proof (induction xs arbitrary: s)
  case Nil
  then show ?case by simp
next
  case (Cons x xs)
  have 1: "P (snd (body x s))" using Cons.prems by simp
  show ?case
  proof (cases "body x s")
    case (Pair r s')
    show ?thesis
    proof (cases r)
      case (Raised e)
      then show ?thesis using Pair 1 by simp
    next
      case (Returned u)
      have "P (snd (for_each body xs s'))"
        using Cons.IH [of s'] Cons.prems(1) 1 Pair by simp
      then show ?thesis using Pair Returned by simp
    qed
  qed
qed

lemma for_each_returns:
  assumes "\<And>x s. x \<in> set xs \<Longrightarrow> fst (body x s) = Returned ()"
  shows "fst (for_each body xs s) = Returned ()"
  using assms
proof (induction xs arbitrary: s)
  case Nil
  then show ?case by simp
next
  case (Cons x xs)
  obtain s' where "body x s = (Returned (), s')"
    using Cons.prems [of x s] by (cases "body x s") auto
  then show ?case using Cons.IH [of s'] Cons.prems by simp
qed

lemma step_dirs:
  "q \<noteq> p \<Longrightarrow> out_dirs (snd (extract_partition b z fmt raw p s)) q = out_dirs s q"
  by (auto simp: extract_partition_def Let_def split: option.splits prod.splits exn.splits)

lemma step_files:
  "out_files (snd (extract_partition b z fmt raw p s)) f = out_files s f
   \<or> (f = p @ ''.img'' \<and> map_of PARTITIONS p \<noteq> None \<and> map_of PARTITIONS p \<noteq> Some FILESYSTEM
        \<and> raw (p @ ''.img'') \<noteq> None
        \<and> out_files (snd (extract_partition b z fmt raw p s)) f = raw (p @ ''.img''))"
  by (auto simp: extract_partition_def Let_def split: option.splits prod.splits exn.splits)

lemma step_boot:
  assumes "map_of PARTITIONS p = Some BOOTIMAGE" "raw (p @ ''.img'') = Some c"
  shows "out_files (snd (extract_partition b z fmt raw p s)) (p @ ''.img'') = Some c"
  using assms by (auto simp: extract_partition_def Let_def split: option.splits prod.splits)

lemma step_not_fs_returns:
  assumes "map_of PARTITIONS p = Some ty" "ty \<noteq> FILESYSTEM"
  shows "fst (extract_partition b z fmt raw p s) = Returned ()"
  using assms by (auto simp: extract_partition_def Let_def split: option.splits prod.splits)

lemma step_fs_files:
  assumes "map_of PARTITIONS p = Some FILESYSTEM"
  shows "out_files (snd (extract_partition b z fmt raw p s)) = out_files s"
  using assms by (auto simp: extract_partition_def Let_def split: option.splits prod.splits exn.splits)






section \<open>The loop of PartitionExtractor\<close>

lemma names_split:
  "\<exists>pre post. get_partition_names = pre @ post
     \<and> (\<forall>p \<in> set pre. map_of PARTITIONS p \<noteq> None \<and> map_of PARTITIONS p \<noteq> Some FILESYSTEM)
     \<and> (\<forall>p \<in> set post. map_of PARTITIONS p = Some FILESYSTEM)"
proof -
  have "get_partition_names = take 7 get_partition_names @ drop 7 get_partition_names" by simp
  moreover have "\<forall>p \<in> set (take 7 get_partition_names). map_of PARTITIONS p \<noteq> None \<and> map_of PARTITIONS p \<noteq> Some FILESYSTEM"
    by (simp add: get_partition_names_def PARTITIONS_def)
  moreover have "\<forall>p \<in> set (drop 7 get_partition_names). map_of PARTITIONS p = Some FILESYSTEM"
    by (simp add: get_partition_names_def PARTITIONS_def)
  ultimately show ?thesis by blast
qed


lemma table_in_names: "map_of PARTITIONS p = Some ty \<Longrightarrow> p \<in> set get_partition_names"
  unfolding get_partition_names_def using map_of_SomeD [of PARTITIONS p ty] by force

lemma names_known: "p \<in> set get_partition_names \<Longrightarrow> p \<in> set get_partition_names_with_alias"
  by (simp add: get_partition_names_with_alias_def)


lemma run_boot_copy:
  assumes ty: "map_of PARTITIONS p = Some BOOTIMAGE" and im: "raw (p @ ''.img'') = Some c"
  shows "out_files (snd (extract_partitions b z fmt raw out)) (p @ ''.img'') = Some c"
proof -
  let ?body = "extract_partition b z fmt raw"
  let ?P = "\<lambda>s. out_files s (p @ ''.img'') = Some c"
  obtain pre post where sp: "get_partition_names = pre @ post"
    and pre: "\<forall>q \<in> set pre. map_of PARTITIONS q \<noteq> None \<and> map_of PARTITIONS q \<noteq> Some FILESYSTEM"
    and post: "\<forall>q \<in> set post. map_of PARTITIONS q = Some FILESYSTEM"
    using names_split by blast
  have keep: "?P (snd (?body q s))" if "?P s" for q s
    using step_files [of b z fmt raw q s "p @ ''.img''"] that im by auto
  have "p \<in> set get_partition_names" by (rule table_in_names [OF ty])
  then have "p \<in> set pre \<union> set post" unfolding sp by simp
  moreover have "p \<notin> set post" using post ty by auto
  ultimately have pin: "p \<in> set pre" by simp
  have r1: "fst (for_each ?body pre out) = Returned ()"
  proof (rule for_each_returns)
    fix x s assume "x \<in> set pre"
    then obtain tx where "map_of PARTITIONS x = Some tx" "tx \<noteq> FILESYSTEM" using pre by auto
    then show "fst (?body x s) = Returned ()" by (rule step_not_fs_returns)
  qed
  have est: "?P (snd (for_each ?body l s))" if "p \<in> set l" "set l \<subseteq> set pre" for l s
    using that
  proof (induction l arbitrary: s)
    case Nil
    then show ?case by simp
  next
    case (Cons x l)
    obtain tx where tx: "map_of PARTITIONS x = Some tx" "tx \<noteq> FILESYSTEM"
      using pre Cons.prems(2) by auto
    obtain s' where st: "?body x s = (Returned (), s')"
      using step_not_fs_returns [of x tx b z fmt raw s, OF tx] by (cases "?body x s") auto
    show ?case
    proof (cases "x = p")
      case True
      have "?P s'" using step_boot [of p raw c b z fmt s, OF ty im] st True by simp
      then have "?P (snd (for_each ?body l s'))"
        by (intro for_each_invariant [of l ?P ?body s'] keep)
      then show ?thesis using st by simp
    next
      case False
      then have "?P (snd (for_each ?body l s'))" using Cons by auto
      then show ?thesis using st by simp
    qed
  qed
  have p1: "?P (snd (for_each ?body pre out))" using est [of pre out] pin by simp
  obtain s1 where s1: "for_each ?body pre out = (Returned (), s1)"
    using r1 by (cases "for_each ?body pre out") auto
  have "?P s1" using p1 s1 by simp
  then have "?P (snd (for_each ?body post s1))"
    by (intro for_each_invariant [of post ?P ?body s1] keep)
  then show ?thesis
    unfolding extract_partitions_def sp for_each_append s1 by simp
qed

lemma run_fs_no_copy:
  assumes ty: "map_of PARTITIONS p = Some FILESYSTEM"
  shows "out_files (snd (extract_partitions b z fmt raw out)) (p @ ''.img'') = out_files out (p @ ''.img'')"
proof -
  let ?body = "extract_partition b z fmt raw"
  let ?P = "\<lambda>s. out_files s (p @ ''.img'') = out_files out (p @ ''.img'')"
  have keep: "?P (snd (?body q s))" if "?P s" for q s
    using step_files [of b z fmt raw q s "p @ ''.img''"] that ty by auto
  have "?P out" by simp
  then show ?thesis unfolding extract_partitions_def
    by (intro for_each_invariant [of get_partition_names ?P ?body out] keep)
qed





lemma table_boot: "map_of PARTITIONS ''boot'' = Some BOOTIMAGE"
  by (simp add: PARTITIONS_def)

lemma table_system: "map_of PARTITIONS ''system'' = Some FILESYSTEM"
  by (simp add: PARTITIONS_def)

section \<open>Unrecognised tokens\<close>

lemma alias_names_known:
  assumes "(alt_name, name) \<in> set ALTERNATIVE_PARTITION_NAMES"
  shows "alt_name \<in> set get_partition_names_with_alias" "name \<in> set get_partition_names_with_alias"
  using assms
  by (auto simp: ALTERNATIVE_PARTITION_NAMES_def get_partition_names_with_alias_def
      get_partition_names_def PARTITIONS_def)

lemma token_img: "u \<in> set get_partition_names_with_alias \<Longrightarrow> partition_token (u @ ''.img'') = u"
  by (rule token_of_group_path(1) [OF _ valid_sfx_img])

lemma token_bare: "u \<in> set get_partition_names_with_alias \<Longrightarrow> partition_token u = u"
  using known_name [of u] by (simp add: partition_token_def base_name_no_dot)

lemma fix_alias_unknown:
  assumes un: "partition_token f \<notin> set get_partition_names_with_alias"
    and x: "x \<in> set ALTERNATIVE_PARTITION_NAMES"
  shows "snd (fix_alias x d) f = d f"
proof -
  obtain alt_name name where xe: "x = (alt_name, name)" by (cases x)
  have "f \<noteq> alt_name @ ''.img''" "f \<noteq> name @ ''.img''"
    using alias_names_known [of alt_name name] x xe token_img un by auto
  then show ?thesis
    unfolding xe fix_alias_def Let_def path_exists_def unlink_def move_def
    by (auto split: if_splits)
qed

lemma fix_aliases_unknown:
  assumes un: "partition_token f \<notin> set get_partition_names_with_alias"
  shows "snd (fix_aliases d) f = d f"
proof -
  let ?P = "\<lambda>s::dir. s f = d f"
  have "?P d" by simp
  then show ?thesis unfolding fix_aliases_def
  proof (rule for_each_invariant [of ALTERNATIVE_PARTITION_NAMES ?P fix_alias d, rotated])
    fix x s assume "x \<in> set ALTERNATIVE_PARTITION_NAMES" "s f = d f"
    then show "snd (fix_alias x s) f = d f" using fix_alias_unknown [OF un, of x s] by simp
  qed
qed

lemma extract_unknown:
  assumes un: "partition_token f \<notin> set get_partition_names_with_alias"
  shows "out_files (snd (extract_partitions b z fmt raw out)) f = out_files out f"
    "out_dirs (snd (extract_partitions b z fmt raw out)) f = out_dirs out f"
proof -
  let ?body = "extract_partition b z fmt raw"
  have ne: "f \<noteq> q @ ''.img''" "f \<noteq> q" if "q \<in> set get_partition_names" for q
    using names_known [OF that] token_img [of q] token_bare [of q] un by auto
  let ?P = "\<lambda>s::out_state. out_files s f = out_files out f"
  have "?P out" by simp
  then show "out_files (snd (extract_partitions b z fmt raw out)) f = out_files out f"
    unfolding extract_partitions_def
  proof (rule for_each_invariant [of get_partition_names ?P ?body out, rotated])
    fix x and s :: out_state assume "x \<in> set get_partition_names" "out_files s f = out_files out f"
    then show "out_files (snd (?body x s)) f = out_files out f"
      using step_files [of b z fmt raw x s f] ne(1) [of x] by auto
  qed
  let ?Q = "\<lambda>s::out_state. out_dirs s f = out_dirs out f"
  have "?Q out" by simp
  then show "out_dirs (snd (extract_partitions b z fmt raw out)) f = out_dirs out f"
    unfolding extract_partitions_def
  proof (rule for_each_invariant [of get_partition_names ?Q ?body out, rotated])
    fix x and s :: out_state assume "x \<in> set get_partition_names" "out_dirs s f = out_dirs out f"
    then show "out_dirs (snd (?body x s)) f = out_dirs out f"
      using step_dirs [of f x b z fmt raw s] ne(2) [of x] by auto
  qed
qed

lemma token_foo: "partition_token ''foo_a.img'' = ''foo''"
  by (simp add: partition_token_def base_name_def get_filename_suffixes_def
      suffixes_def endswith_def)

section \<open>The orchestrator, step by step\<close>

lemma cleanup_debug: "cleanup True w = (Returned (), w)"
  by (simp add: cleanup_def)

lemma rmtree_dir:
  "es name = Some (Dir t) \<Longrightarrow>
     rmtree_recursive name (Directory es) = (Returned (), Directory (es(name := None)))"
  by (simp add: rmtree_recursive_def)

lemma cleanup_Directory:
  assumes a: "\<And>c. es ''temp_extracted_archive'' \<noteq> Some (File c)"
    and b: "\<And>c. es ''temp_raw_images'' \<noteq> Some (File c)"
  shows "cleanup False (Directory es) =
     (Returned (), Directory (es(''temp_extracted_archive'' := None, ''temp_raw_images'' := None)))"
proof -
  let ?A = "''temp_extracted_archive''" and ?B = "''temp_raw_images''"
  let ?e1 = "es(?A := None)"
  have 1: "(if child_exists ?A (Directory es) then rmtree_recursive ?A (Directory es)
            else (Returned (), Directory es)) = (Returned (), Directory ?e1)"
  proof (cases "es ?A")
    case None
    then have "?e1 = es" by (intro fun_upd_idem) simp
    then show ?thesis using None by (simp add: child_exists_def)
  next
    case (Some n)
    then obtain t where "es ?A = Some (Dir t)" using a by (cases n) auto
    then show ?thesis by (simp add: child_exists_def rmtree_dir)
  qed
  have eb: "?e1 ?B = es ?B" by simp
  have 2: "(if child_exists ?B (Directory ?e1) then rmtree_recursive ?B (Directory ?e1)
            else (Returned (), Directory ?e1)) = (Returned (), Directory (?e1(?B := None)))"
  proof (cases "es ?B")
    case None
    then have "?e1(?B := None) = ?e1" using eb by (intro fun_upd_idem) simp
    then show ?thesis using None eb by (simp add: child_exists_def)
  next
    case (Some n)
    then obtain t where "?e1 ?B = Some (Dir t)" using b eb by (cases n) auto
    then show ?thesis by (simp only: child_exists_def world.case rmtree_dir) simp
  qed
  show ?thesis unfolding cleanup_def 1 using 2 by simp
qed


lemma dumpyara_steps_eq:
  "dumpyara_steps step_1 step_2 step_3 w =
     (if w = Absent
      then for_each (\<lambda>statement. statement) [step_1, step_2, step_3]
             (Directory [''temp_extracted_archive'' \<mapsto> Dir [], ''temp_raw_images'' \<mapsto> Dir []])
      else (Raised FileExistsError, w))"
  by (cases w) (simp_all add: dumpyara_steps_def mkdir_path_def mkdir_child_def)

lemma write_text_child:
  assumes "write_text name data w = (Returned (), w')"
  shows "child n w' = (if n = name then Some (File data) else child n w)"
  using assms
  by (auto simp: write_text_def child_def split: world.splits option.splits node.splits)

lemma write_text_other:
  "n \<noteq> name \<Longrightarrow> child n (snd (write_text name data w)) = child n w"
  by (auto simp: write_text_def child_def split: world.splits option.splits node.splits)

lemma child_exists_child: "child_exists n w \<longleftrightarrow> child n w \<noteq> None"
  by (simp add: child_exists_def child_def split: world.splits)

lemma rmtree_child:
  "n \<noteq> name \<Longrightarrow> child n (snd (rmtree_recursive name w)) = child n w"
  by (auto simp: rmtree_recursive_def child_def split: world.splits option.splits node.splits)

lemma cleanup_child:
  assumes "n \<noteq> ''temp_extracted_archive''" "n \<noteq> ''temp_raw_images''"
  shows "child n (snd (cleanup debug w)) = child n w"
proof (cases debug)
  case True
  then show ?thesis by (simp add: cleanup_debug)
next
  case False
  let ?A = "''temp_extracted_archive''" and ?B = "''temp_raw_images''"
  let ?r1 = "if child_exists ?A w then rmtree_recursive ?A w else (Returned (), w)"
  have 1: "child n (snd ?r1) = child n w" using assms(1) by (simp add: rmtree_child)
  obtain r w1 where r1: "?r1 = (r, w1)" by (cases ?r1)
  have c1: "child n w1 = child n w" using 1 r1 by simp
  show ?thesis
  proof (cases r)
    case (Raised e)
    then show ?thesis using False r1 c1 by (simp add: cleanup_def)
  next
    case (Returned u)
    have "child n (snd (if child_exists ?B w1 then rmtree_recursive ?B w1 else (Returned (), w1))) = child n w1"
      using assms(2) by (simp add: rmtree_child)
    then show ?thesis using False r1 c1 Returned by (simp add: cleanup_def)
  qed
qed

lemma cleanup_removes:
  assumes "\<not> is_regular_file ''temp_extracted_archive'' w" "\<not> is_regular_file ''temp_raw_images'' w"
  shows "fst (cleanup False w) = Returned ()
    \<and> \<not> child_exists ''temp_extracted_archive'' (snd (cleanup False w))
    \<and> \<not> child_exists ''temp_raw_images'' (snd (cleanup False w))"
proof (cases w)
  case Absent
  then show ?thesis by (simp add: cleanup_def child_exists_def)
next
  case (RegularFile c)
  then show ?thesis by (simp add: cleanup_def child_exists_def)
next
  case (Directory es)
  have a: "es ''temp_extracted_archive'' \<noteq> Some (File c)" for c
    using assms(1) Directory by (auto simp: is_regular_file_def child_def)
  have b: "es ''temp_raw_images'' \<noteq> Some (File c)" for c
    using assms(2) Directory by (auto simp: is_regular_file_def child_def)
  show ?thesis unfolding Directory cleanup_Directory [of es, OF a b]
    by (simp add: child_exists_def)
qed

lemma write_text_keeps:
  "child_exists n w \<Longrightarrow> child_exists n (snd (write_text name data w))"
  by (auto simp: write_text_def child_exists_def split: world.splits option.splits node.splits)

lemma steps_keep_temp:
  assumes k1: "\<And>w. child_exists ''temp_extracted_archive'' w \<Longrightarrow> child_exists ''temp_raw_images'' w \<Longrightarrow>
                 child_exists ''temp_extracted_archive'' (snd (step_1 w)) \<and>
                 child_exists ''temp_raw_images'' (snd (step_1 w))"
    and k2: "\<And>w. child_exists ''temp_extracted_archive'' w \<Longrightarrow> child_exists ''temp_raw_images'' w \<Longrightarrow>
                 child_exists ''temp_extracted_archive'' (snd (step_2 w)) \<and>
                 child_exists ''temp_raw_images'' (snd (step_2 w))"
    and k3: "\<And>w. child_exists ''temp_extracted_archive'' w \<Longrightarrow> child_exists ''temp_raw_images'' w \<Longrightarrow>
                 child_exists ''temp_extracted_archive'' (snd (step_3 w)) \<and>
                 child_exists ''temp_raw_images'' (snd (step_3 w))"
    and ok: "fst (dumpyara_steps step_1 step_2 step_3 w) = Returned ()"
  shows "child_exists ''temp_extracted_archive'' (snd (dumpyara_steps step_1 step_2 step_3 w))
       \<and> child_exists ''temp_raw_images'' (snd (dumpyara_steps step_1 step_2 step_3 w))"
proof -
  let ?P = "\<lambda>w. child_exists ''temp_extracted_archive'' w \<and> child_exists ''temp_raw_images'' w"
  let ?w0 = "Directory [''temp_extracted_archive'' \<mapsto> Dir [], ''temp_raw_images'' \<mapsto> Dir []]"
  have w: "w = Absent" using ok by (cases "w = Absent") (simp_all add: dumpyara_steps_eq)
  have 0: "?P ?w0" by (simp add: child_exists_def)
  have "?P (snd (for_each (\<lambda>statement. statement) [step_1, step_2, step_3] ?w0))"
  proof (rule for_each_invariant [of "[step_1, step_2, step_3]" ?P "\<lambda>statement. statement" ?w0])
    fix x s assume x: "x \<in> set [step_1, step_2, step_3]" and s: "?P s"
    from x have "x = step_1 \<or> x = step_2 \<or> x = step_3" by simp
    then show "?P (snd (x s))" using k1 [of s] k2 [of s] k3 [of s] s by blast
  next
    show "?P ?w0" by (rule 0)
  qed
  then show ?thesis unfolding dumpyara_steps_eq w by simp
qed

lemma dumpyara_returned:
  assumes "fst (dumpyara step_1 step_2 step_3 get_recursive_files_list strcoll_sorted debug w) = Returned ()"
  shows "fst (dumpyara_steps step_1 step_2 step_3 w) = Returned ()"
    "fst (finalize get_recursive_files_list strcoll_sorted (snd (dumpyara_steps step_1 step_2 step_3 w)))
       = Returned ()"
    "fst (cleanup debug (snd (finalize get_recursive_files_list strcoll_sorted
                               (snd (dumpyara_steps step_1 step_2 step_3 w))))) = Returned ()"
    "snd (dumpyara step_1 step_2 step_3 get_recursive_files_list strcoll_sorted debug w)
       = snd (cleanup debug (snd (finalize get_recursive_files_list strcoll_sorted
                               (snd (dumpyara_steps step_1 step_2 step_3 w)))))"
proof -
  let ?st = "dumpyara_steps step_1 step_2 step_3 w"
  obtain r3 w3 where st: "?st = (r3, w3)" by (cases ?st)
  obtain r4 w4 where fin: "finalize get_recursive_files_list strcoll_sorted w3 = (r4, w4)"
    by (cases "finalize get_recursive_files_list strcoll_sorted w3")
  obtain r5 w5 where cl: "cleanup debug w4 = (r5, w5)" by (cases "cleanup debug w4")
  obtain r5' w5' where cl3: "cleanup debug w3 = (r5', w5')" by (cases "cleanup debug w3")
  have r3: "r3 = Returned ()"
    using assms st cl3 by (cases r3; cases r5') (simp_all add: dumpyara_def dumpyara_try_def)
  have r4: "r4 = Returned ()"
    using assms st r3 fin cl by (cases r4; cases r5) (simp_all add: dumpyara_def dumpyara_try_def)
  have r5: "r5 = Returned ()"
    using assms st r3 fin r4 cl by (cases r5) (simp_all add: dumpyara_def dumpyara_try_def)
  show "fst ?st = Returned ()" using st r3 by simp
  show "fst (finalize get_recursive_files_list strcoll_sorted (snd ?st)) = Returned ()"
    using st fin r4 by simp
  show "fst (cleanup debug (snd (finalize get_recursive_files_list strcoll_sorted (snd ?st)))) = Returned ()"
    using st fin cl r5 by simp
  show "snd (dumpyara step_1 step_2 step_3 get_recursive_files_list strcoll_sorted debug w)
       = snd (cleanup debug (snd (finalize get_recursive_files_list strcoll_sorted (snd ?st))))"
    using st r3 fin r4 cl r5 by (simp add: dumpyara_def dumpyara_try_def)
qed


lemma dumpyara_snd:
  "snd (dumpyara step_1 step_2 step_3 get_recursive_files_list strcoll_sorted debug w)
     = snd (cleanup debug
              (snd (dumpyara_try step_1 step_2 step_3 get_recursive_files_list strcoll_sorted w)))"
  by (simp add: dumpyara_def split: prod.splits result.splits)

lemma mkdir_path_not_file:
  "\<not> is_regular_file n w \<Longrightarrow> \<not> is_regular_file n (snd (mkdir_path w))"
  by (cases w) (simp_all add: mkdir_path_def is_regular_file_def child_def)

lemma mkdir_child_not_file:
  "\<not> is_regular_file n w \<Longrightarrow> \<not> is_regular_file n (snd (mkdir_child name w))"
  by (cases w) (simp_all add: mkdir_child_def is_regular_file_def child_def)

lemma finalize_not_file:
  assumes "n \<noteq> ''all_files.txt''" "\<not> is_regular_file n w"
  shows "\<not> is_regular_file n (snd (finalize g srt w))"
  using assms write_text_other [of n "''all_files.txt''"]
  by (simp add: finalize_def is_regular_file_def)

lemma try_keeps_not_file:
  assumes n1: "\<And>w. \<not> is_regular_file ''temp_extracted_archive'' w \<Longrightarrow> \<not> is_regular_file ''temp_raw_images'' w \<Longrightarrow>
                 \<not> is_regular_file ''temp_extracted_archive'' (snd (step_1 w)) \<and>
                 \<not> is_regular_file ''temp_raw_images'' (snd (step_1 w))"
    and n2: "\<And>w. \<not> is_regular_file ''temp_extracted_archive'' w \<Longrightarrow> \<not> is_regular_file ''temp_raw_images'' w \<Longrightarrow>
                 \<not> is_regular_file ''temp_extracted_archive'' (snd (step_2 w)) \<and>
                 \<not> is_regular_file ''temp_raw_images'' (snd (step_2 w))"
    and n3: "\<And>w. \<not> is_regular_file ''temp_extracted_archive'' w \<Longrightarrow> \<not> is_regular_file ''temp_raw_images'' w \<Longrightarrow>
                 \<not> is_regular_file ''temp_extracted_archive'' (snd (step_3 w)) \<and>
                 \<not> is_regular_file ''temp_raw_images'' (snd (step_3 w))"
    and w0: "\<not> is_regular_file ''temp_extracted_archive'' w" "\<not> is_regular_file ''temp_raw_images'' w"
  shows "\<not> is_regular_file ''temp_extracted_archive''
             (snd (dumpyara_try step_1 step_2 step_3 get_recursive_files_list strcoll_sorted w))
       \<and> \<not> is_regular_file ''temp_raw_images''
             (snd (dumpyara_try step_1 step_2 step_3 get_recursive_files_list strcoll_sorted w))"
proof -
  let ?A = "''temp_extracted_archive''" and ?B = "''temp_raw_images''"
  let ?P = "\<lambda>w. \<not> is_regular_file ?A w \<and> \<not> is_regular_file ?B w"
  let ?stmts = "[mkdir_path, mkdir_child ?A, mkdir_child ?B, step_1, step_2, step_3]"
  have st: "?P (snd (dumpyara_steps step_1 step_2 step_3 w))"
    unfolding dumpyara_steps_def
  proof (rule for_each_invariant [of ?stmts ?P "\<lambda>statement. statement" w])
    fix x s assume x: "x \<in> set ?stmts" and s: "?P s"
    from x have "x = mkdir_path \<or> x = mkdir_child ?A \<or> x = mkdir_child ?B
                  \<or> x = step_1 \<or> x = step_2 \<or> x = step_3" by simp
    then show "?P (snd (x s))"
      using n1 [of s] n2 [of s] n3 [of s] s mkdir_path_not_file [of _ s]
        mkdir_child_not_file [of _ s] by blast
  next
    show "?P w" using w0 by simp
  qed
  obtain r3 w3 where d: "dumpyara_steps step_1 step_2 step_3 w = (r3, w3)"
    by (cases "dumpyara_steps step_1 step_2 step_3 w")
  have p3: "?P w3" using st d by simp
  show ?thesis
  proof (cases r3)
    case (Raised e)
    then show ?thesis using d p3 by (simp add: dumpyara_try_def)
  next
    case (Returned u)
    have "?P (snd (finalize get_recursive_files_list strcoll_sorted w3))"
      using p3 finalize_not_file [of ?A w3] finalize_not_file [of ?B w3] by simp
    then show ?thesis using d Returned by (simp add: dumpyara_try_def)
  qed
qed

lemma dumpyara_removes_temp:
  assumes n1: "\<And>w. \<not> is_regular_file ''temp_extracted_archive'' w \<Longrightarrow> \<not> is_regular_file ''temp_raw_images'' w \<Longrightarrow>
                 \<not> is_regular_file ''temp_extracted_archive'' (snd (step_1 w)) \<and>
                 \<not> is_regular_file ''temp_raw_images'' (snd (step_1 w))"
    and n2: "\<And>w. \<not> is_regular_file ''temp_extracted_archive'' w \<Longrightarrow> \<not> is_regular_file ''temp_raw_images'' w \<Longrightarrow>
                 \<not> is_regular_file ''temp_extracted_archive'' (snd (step_2 w)) \<and>
                 \<not> is_regular_file ''temp_raw_images'' (snd (step_2 w))"
    and n3: "\<And>w. \<not> is_regular_file ''temp_extracted_archive'' w \<Longrightarrow> \<not> is_regular_file ''temp_raw_images'' w \<Longrightarrow>
                 \<not> is_regular_file ''temp_extracted_archive'' (snd (step_3 w)) \<and>
                 \<not> is_regular_file ''temp_raw_images'' (snd (step_3 w))"
    and w0: "\<not> is_regular_file ''temp_extracted_archive'' w" "\<not> is_regular_file ''temp_raw_images'' w"
  shows "\<not> child_exists ''temp_extracted_archive''
             (snd (dumpyara step_1 step_2 step_3 get_recursive_files_list strcoll_sorted False w))
       \<and> \<not> child_exists ''temp_raw_images''
             (snd (dumpyara step_1 step_2 step_3 get_recursive_files_list strcoll_sorted False w))"
proof -
  let ?w' = "snd (dumpyara_try step_1 step_2 step_3 get_recursive_files_list strcoll_sorted w)"
  have "\<not> is_regular_file ''temp_extracted_archive'' ?w' \<and> \<not> is_regular_file ''temp_raw_images'' ?w'"
    by (rule try_keeps_not_file [of step_1 step_2 step_3 w]) (use n1 n2 n3 w0 in blast)+
  then show ?thesis
    unfolding dumpyara_snd using cleanup_removes [of ?w'] by blast
qed

lemma dumpyara_debug_keeps_temp:
  assumes k1: "\<And>w. child_exists ''temp_extracted_archive'' w \<Longrightarrow> child_exists ''temp_raw_images'' w \<Longrightarrow>
                 child_exists ''temp_extracted_archive'' (snd (step_1 w)) \<and>
                 child_exists ''temp_raw_images'' (snd (step_1 w))"
    and k2: "\<And>w. child_exists ''temp_extracted_archive'' w \<Longrightarrow> child_exists ''temp_raw_images'' w \<Longrightarrow>
                 child_exists ''temp_extracted_archive'' (snd (step_2 w)) \<and>
                 child_exists ''temp_raw_images'' (snd (step_2 w))"
    and k3: "\<And>w. child_exists ''temp_extracted_archive'' w \<Longrightarrow> child_exists ''temp_raw_images'' w \<Longrightarrow>
                 child_exists ''temp_extracted_archive'' (snd (step_3 w)) \<and>
                 child_exists ''temp_raw_images'' (snd (step_3 w))"
    and ok: "fst (dumpyara step_1 step_2 step_3 get_recursive_files_list strcoll_sorted True w) = Returned ()"
  shows "child_exists ''temp_extracted_archive''
           (snd (dumpyara step_1 step_2 step_3 get_recursive_files_list strcoll_sorted True w))
       \<and> child_exists ''temp_raw_images''
           (snd (dumpyara step_1 step_2 step_3 get_recursive_files_list strcoll_sorted True w))"
proof -
  let ?st = "dumpyara_steps step_1 step_2 step_3 w"
  note R = dumpyara_returned [OF ok]
  have "child_exists ''temp_extracted_archive'' (snd ?st) \<and> child_exists ''temp_raw_images'' (snd ?st)"
    using R(1) by (intro steps_keep_temp [of step_1 step_2 step_3 w] k1 k2 k3)
  then have "child_exists ''temp_extracted_archive'' (snd (finalize get_recursive_files_list strcoll_sorted (snd ?st)))
           \<and> child_exists ''temp_raw_images'' (snd (finalize get_recursive_files_list strcoll_sorted (snd ?st)))"
    unfolding finalize_def using write_text_keeps by blast
  then show ?thesis unfolding R(4) cleanup_debug by simp
qed

section \<open>Properties of AliasResolver\<close>

text \<open>
  C1. With both \<open>boot-verified.img\<close> and \<open>boot.img\<close> in the staging directory,
  \<open>fix_aliases\<close> deletes the alias and keeps the canonical image, and then raises
  \<open>FileNotFoundError\<close> from the \<open>move\<close> of the file it has just deleted: it does not
  return normally.
\<close>

theorem fix_aliases_collision_raises:
  "fix_aliases [''boot-verified.img'' \<mapsto> x, ''boot.img'' \<mapsto> y]
     = (Raised FileNotFoundError, [''boot.img'' \<mapsto> y])"
  by (simp add: fix_aliases_def ALTERNATIVE_PARTITION_NAMES_def fix_alias_def
      path_exists_def unlink_def move_def fun_upd_twist)

section \<open>Properties of SlotResolver\<close>

text \<open>
  C3 (as amended). For a recognised token \<open>t\<close> with \<open>t_a.img\<close> and \<open>t_b.img\<close> present
  and \<open>t.img\<close> absent, \<open>correct_ab_filenames\<close> returns normally, \<open>t_a.img\<close> is renamed to
  \<open>t.img\<close> (which then holds the content of \<open>t_a.img\<close>), and the fate of \<open>t_b.img\<close>
  depends on the order of the directory listing: it is left in place when it is listed
  before \<open>t_a.img\<close>, and it is deleted when it is listed after \<open>t_a.img\<close> (by then
  \<open>t.img\<close> exists, so the slotted file counts as redundant).
\<close>

theorem slot_resolver_dual_slot:
  assumes "t \<in> set get_partition_names_with_alias"
    and "images (t @ ''_a.img'') = Some ca" and "images (t @ ''_b.img'') = Some cb"
    and "images (t @ ''.img'') = None"
    and "distinct listing" and "set listing = dom images"
  shows "fst (correct_ab_filenames listing images) = Returned ()
    \<and> snd (correct_ab_filenames listing images) (t @ ''.img'') = Some ca
    \<and> snd (correct_ab_filenames listing images) (t @ ''_a.img'') = None
    \<and> snd (correct_ab_filenames listing images) (t @ ''_b.img'') =
         (if t @ ''_b.img'' \<in> set (takeWhile (\<lambda>x. x \<noteq> t @ ''_a.img'') listing)
          then Some cb else None)"
  using dual_slots_run [OF assms] correct_ab_returns by simp

theorem slot_resolver_dual_slot_witness:
  "fst (correct_ab_filenames [''boot_b.img'', ''boot_a.img'']
          [''boot_a.img'' \<mapsto> ''A'', ''boot_b.img'' \<mapsto> ''B'']) = Returned ()
   \<and> snd (correct_ab_filenames [''boot_b.img'', ''boot_a.img'']
          [''boot_a.img'' \<mapsto> ''A'', ''boot_b.img'' \<mapsto> ''B'']) ''boot.img'' = Some ''A''
   \<and> snd (correct_ab_filenames [''boot_b.img'', ''boot_a.img'']
          [''boot_a.img'' \<mapsto> ''A'', ''boot_b.img'' \<mapsto> ''B'']) ''boot_a.img'' = None
   \<and> snd (correct_ab_filenames [''boot_b.img'', ''boot_a.img'']
          [''boot_a.img'' \<mapsto> ''A'', ''boot_b.img'' \<mapsto> ''B'']) ''boot_b.img'' = Some ''B''"
  using slot_resolver_dual_slot [of "''boot''" "[''boot_a.img'' \<mapsto> ''A'', ''boot_b.img'' \<mapsto> ''B'']"
      "''A''" "''B''" "[''boot_b.img'', ''boot_a.img'']"] known_boot
  by simp

text \<open>
  The claim as stated, "\<open>t_b.img\<close> is left in place regardless of the order", fails for the
  listing \<open>boot_a.img, boot_b.img\<close>: the first iteration renames \<open>boot_a.img\<close> to
  \<open>boot.img\<close>, the second finds \<open>boot.img\<close> and unlinks \<open>boot_b.img\<close>.
\<close>

theorem slot_resolver_dual_slot_counterexample:
  "''boot'' \<in> set get_partition_names_with_alias
   \<and> [''boot_a.img'' \<mapsto> ''A'', ''boot_b.img'' \<mapsto> ''B''] ''boot_a.img'' = Some ''A''
   \<and> [''boot_a.img'' \<mapsto> ''A'', ''boot_b.img'' \<mapsto> ''B''] ''boot_b.img'' = Some ''B''
   \<and> [''boot_a.img'' \<mapsto> ''A'', ''boot_b.img'' \<mapsto> ''B''] ''boot.img'' = None
   \<and> snd (correct_ab_filenames [''boot_a.img'', ''boot_b.img'']
          [''boot_a.img'' \<mapsto> ''A'', ''boot_b.img'' \<mapsto> ''B'']) ''boot_b.img'' = None"
  using dual_slots_run(3) [of "''boot''" "[''boot_a.img'' \<mapsto> ''A'', ''boot_b.img'' \<mapsto> ''B'']"
      "''A''" "''B''" "[''boot_a.img'', ''boot_b.img'']"] known_boot
  by (simp add: insert_commute)

text \<open>
  C6. With \<open>system.img\<close> and \<open>system_b.img\<close> both in the staging directory,
  \<open>correct_ab_filenames\<close> returns normally, \<open>system_b.img\<close> is deleted and \<open>system.img\<close>
  holds the content it held before, for every order of the directory listing.
\<close>

theorem slot_resolver_redundant_system_b:
  assumes "images ''system.img'' = Some c" and "images ''system_b.img'' = Some c'"
    and "set listing = dom images"
  shows "fst (correct_ab_filenames listing images) = Returned ()
    \<and> snd (correct_ab_filenames listing images) ''system_b.img'' = None
    \<and> snd (correct_ab_filenames listing images) ''system.img'' = Some c"
proof -
  have "''system'' @ ''_b.img'' \<in> set listing" using assms by auto
  from redundant_slot_run [OF known_system _ this, of images c] assms(1) correct_ab_returns
  show ?thesis by simp
qed

theorem slot_resolver_redundant_system_b_witness:
  "fst (correct_ab_filenames [''system_b.img'', ''system.img'']
          [''system.img'' \<mapsto> ''S'', ''system_b.img'' \<mapsto> ''B'']) = Returned ()
   \<and> snd (correct_ab_filenames [''system_b.img'', ''system.img'']
          [''system.img'' \<mapsto> ''S'', ''system_b.img'' \<mapsto> ''B'']) ''system_b.img'' = None
   \<and> snd (correct_ab_filenames [''system_b.img'', ''system.img'']
          [''system.img'' \<mapsto> ''S'', ''system_b.img'' \<mapsto> ''B'']) ''system.img'' = Some ''S''"
  using slot_resolver_redundant_system_b [of "[''system.img'' \<mapsto> ''S'', ''system_b.img'' \<mapsto> ''B'']"
      "''S''" "''B''" "[''system_b.img'', ''system.img'']"]
  by simp

text \<open>
  C7 (as amended). \<open>correct_ab_filenames\<close> is idempotent outside the dual-slot orphan
  case: when the first run starts from a directory and a listing in which no recognised
  token has both slot files present, the unslotted file absent and the \<open>_b\<close> file listed
  before the \<open>_a\<close> file, a second run on the result of the first, over any listing,
  returns normally and leaves the directory as it is (no rename, no deletion).
\<close>

theorem slot_resolver_idempotent:
  assumes "distinct listing" and "set listing = dom images"
    and "\<And>t s. t \<in> set get_partition_names_with_alias \<Longrightarrow> valid_sfx s \<Longrightarrow>
               images (t @ s) = None \<Longrightarrow> images (t @ ''_a'' @ s) \<noteq> None \<Longrightarrow>
               images (t @ ''_b'' @ s) \<noteq> None \<Longrightarrow>
               t @ ''_b'' @ s \<notin> set (takeWhile (\<lambda>x. x \<noteq> t @ ''_a'' @ s) listing)"
  shows "correct_ab_filenames listing' (snd (correct_ab_filenames listing images))
           = (Returned (), snd (correct_ab_filenames listing images))"
proof -
  let ?d = "snd (correct_ab_filenames listing images)"
  have c: "slot_group f = None" if nz: "?d f \<noteq> None" for f
  proof (rule ccontr)
    assume "slot_group f \<noteq> None"
    then obtain u s where g: "slot_group f = Some (u, s)" by fastforce
    have "?d f = None"
      by (rule slot_run_clean [of listing images f u s, OF assms g])
    with nz show False by contradiction
  qed
  have "for_each slot_body listing' ?d = (Returned (), ?d)"
    by (rule slot_noop [of ?d listing', OF c])
  then show ?thesis by (simp only: correct_ab_filenames_def)
qed

theorem slot_resolver_idempotent_witness:
  "correct_ab_filenames [''boot.img'']
     (snd (correct_ab_filenames [''boot_a.img'', ''boot_b.img'']
            [''boot_a.img'' \<mapsto> ''A'', ''boot_b.img'' \<mapsto> ''B'']))
   = (Returned (), snd (correct_ab_filenames [''boot_a.img'', ''boot_b.img'']
            [''boot_a.img'' \<mapsto> ''A'', ''boot_b.img'' \<mapsto> ''B'']))"
proof -
  let ?I = "[''boot_a.img'' \<mapsto> ''A'', ''boot_b.img'' \<mapsto> ''B'']"
  let ?l = "[''boot_a.img'', ''boot_b.img'']"
  have m: "x = (''boot'' @ ''_a'') @ ''.img'' \<or> x = (''boot'' @ ''_b'') @ ''.img''" if "?I x \<noteq> None" for x
    using that by (simp split: if_splits)
  have h: "t @ ''_b'' @ s \<notin> set (takeWhile (\<lambda>x. x \<noteq> t @ ''_a'' @ s) ?l)"
    if k: "t \<in> set get_partition_names_with_alias" and v: "valid_sfx s"
      and a: "?I (t @ ''_a'' @ s) \<noteq> None" for t s
  proof -
    have xa: "''_a'' = [] \<or> ''_a'' = ''_a'' \<or> ''_a'' = ''_b''" by simp
    have xb: "''_b'' = [] \<or> ''_b'' = ''_a'' \<or> ''_b'' = ''_b''" by simp
    have "(t @ ''_a'') @ s \<noteq> (''boot'' @ ''_b'') @ ''.img''"
    proof
      assume e: "(t @ ''_a'') @ s = (''boot'' @ ''_b'') @ ''.img''"
      from path_unique [OF k known_boot v valid_sfx_img xa xb e] show False by simp
    qed
    moreover have "(t @ ''_a'') @ s = (''boot'' @ ''_a'') @ ''.img'' \<or> (t @ ''_a'') @ s = (''boot'' @ ''_b'') @ ''.img''"
      using m [of "(t @ ''_a'') @ s"] a by simp
    ultimately have e: "(t @ ''_a'') @ s = (''boot'' @ ''_a'') @ ''.img''" by blast
    have "takeWhile (\<lambda>x. x \<noteq> (t @ ''_a'') @ s) ?l = []" unfolding e by simp
    then show ?thesis by simp
  qed
  have d: "distinct ?l" by simp
  have s: "set ?l = dom ?I" by auto
  show ?thesis by (rule slot_resolver_idempotent [of ?l ?I "[''boot.img'']", OF d s h])
qed

text \<open>
  The claim as stated, for every directory, fails in the orphan case: from
  \<open>boot_a.img\<close> and \<open>boot_b.img\<close> listed as \<open>boot_b.img, boot_a.img\<close> the first run
  leaves \<open>boot.img\<close> and \<open>boot_b.img\<close>, and the second run deletes \<open>boot_b.img\<close>.
\<close>

theorem slot_resolver_idempotent_counterexample:
  "snd (correct_ab_filenames [''boot_b.img'', ''boot_a.img'']
          [''boot_a.img'' \<mapsto> ''A'', ''boot_b.img'' \<mapsto> ''B'']) ''boot_b.img'' = Some ''B''
   \<and> snd (correct_ab_filenames [''boot.img'', ''boot_b.img'']
          (snd (correct_ab_filenames [''boot_b.img'', ''boot_a.img'']
                 [''boot_a.img'' \<mapsto> ''A'', ''boot_b.img'' \<mapsto> ''B'']))) ''boot_b.img'' = None"
proof -
  let ?I = "[''boot_a.img'' \<mapsto> ''A'', ''boot_b.img'' \<mapsto> ''B'']"
  let ?l = "[''boot_b.img'', ''boot_a.img'']"
  let ?d = "snd (correct_ab_filenames ?l ?I)"
  have d: "distinct ?l" by simp
  have s: "set ?l = dom ?I" by auto
  have 1: "?d (''boot'' @ ''.img'') = Some ''A''"
    by (rule dual_slots_run(1) [OF known_boot _ _ _ d s]) simp_all
  have 2: "?d ''boot_b.img'' = Some ''B''"
    using dual_slots_run(3) [OF known_boot _ _ _ d s, of "''A''" "''B''"] by simp
  have 3: "snd (correct_ab_filenames [''boot.img'', ''boot_b.img''] ?d) (''boot'' @ ''_b.img'') = None"
    by (rule redundant_slot_run(2) [of "''boot''" ?d "''A''", OF known_boot 1]) simp
  show ?thesis using 2 3 by simp
qed

section \<open>Properties of PartitionExtractor\<close>





text \<open>
  C5. For every partition of type \<open>BOOTIMAGE\<close> whose raw image is in the staging directory,
  the output root holds a verbatim copy \<open><partition>.img\<close> after \<open>extract_partitions\<close>,
  whatever \<open>extract_bootimg\<close> did (returned or raised) and however the run ended; for a
  partition of type \<open>FILESYSTEM\<close> the file \<open><partition>.img\<close> of the output root is as it
  was before the run: no copy is made.
\<close>

theorem extract_partitions_raw_copy:
  "(map_of PARTITIONS p = Some BOOTIMAGE \<and> raw_images (p @ ''.img'') = Some img
      \<longrightarrow> out_files (snd (extract_partitions extract_bootimg sevenz format_exception raw_images out))
            (p @ ''.img'') = Some img)
   \<and> (map_of PARTITIONS p = Some FILESYSTEM
      \<longrightarrow> out_files (snd (extract_partitions extract_bootimg sevenz format_exception raw_images out))
            (p @ ''.img'') = out_files out (p @ ''.img''))"
  using run_boot_copy [of p raw_images img extract_bootimg sevenz format_exception out]
    run_fs_no_copy [of p extract_bootimg sevenz format_exception raw_images out]
  by blast

theorem extract_partitions_raw_copy_witness:
  "out_files (snd (extract_partitions
          (\<lambda>p c t. (Some (OtherException ''bad magic''), None))
          (\<lambda>p c t. (None, Some [(''build.prop'', ''x'')]))
          (\<lambda>e. ''boom'')
          [''boot.img'' \<mapsto> ''B'', ''system.img'' \<mapsto> ''S'']
          \<lparr>out_dirs = Map.empty, out_files = Map.empty, out_log = []\<rparr>)) ''boot.img'' = Some ''B''
   \<and> out_files (snd (extract_partitions
          (\<lambda>p c t. (Some (OtherException ''bad magic''), None))
          (\<lambda>p c t. (None, Some [(''build.prop'', ''x'')]))
          (\<lambda>e. ''boom'')
          [''boot.img'' \<mapsto> ''B'', ''system.img'' \<mapsto> ''S'']
          \<lparr>out_dirs = Map.empty, out_files = Map.empty, out_log = []\<rparr>)) ''system.img'' = None"
  using extract_partitions_raw_copy [of "''boot''" "[''boot.img'' \<mapsto> ''B'', ''system.img'' \<mapsto> ''S'']" "''B''"
      "\<lambda>p c t. (Some (OtherException ''bad magic''), None)" "\<lambda>p c t. (None, Some [(''build.prop'', ''x'')])"
      "\<lambda>e. ''boom''" "\<lparr>out_dirs = Map.empty, out_files = Map.empty, out_log = []\<rparr>"]
    extract_partitions_raw_copy [of "''system''" "[''boot.img'' \<mapsto> ''B'', ''system.img'' \<mapsto> ''S'']" "''B''"
      "\<lambda>p c t. (Some (OtherException ''bad magic''), None)" "\<lambda>p c t. (None, Some [(''build.prop'', ''x'')])"
      "\<lambda>e. ''boom''" "\<lparr>out_dirs = Map.empty, out_files = Map.empty, out_log = []\<rparr>"]
    table_boot table_system
  by simp

section \<open>Unrecognised partition tokens\<close>

text \<open>
  C8. A file name whose partition token is neither a canonical registry name nor an alias
  name is left as it is by \<open>correct_ab_filenames\<close> (for every listing) and by
  \<open>fix_aliases\<close> (also when it raises), and \<open>extract_partitions\<close> writes neither a file
  nor a directory of that name into the output directory.
\<close>

theorem unknown_token_untouched:
  assumes "partition_token file \<notin> set get_partition_names_with_alias"
  shows "snd (correct_ab_filenames listing images) file = images file
    \<and> snd (fix_aliases images) file = images file
    \<and> out_files (snd (extract_partitions extract_bootimg sevenz format_exception raw_images out)) file
        = out_files out file
    \<and> out_dirs (snd (extract_partitions extract_bootimg sevenz format_exception raw_images out)) file
        = out_dirs out file"
  using slot_run_unknown [OF assms, of listing images] fix_aliases_unknown [OF assms, of images]
    extract_unknown [OF assms, of extract_bootimg sevenz format_exception raw_images out]
  by simp

theorem unknown_token_untouched_witness:
  "snd (correct_ab_filenames [''foo_a.img'', ''boot_a.img'']
          [''foo_a.img'' \<mapsto> ''X'', ''boot_a.img'' \<mapsto> ''A'']) ''foo_a.img'' = Some ''X''
   \<and> snd (fix_aliases [''foo_a.img'' \<mapsto> ''X'', ''boot_a.img'' \<mapsto> ''A'']) ''foo_a.img'' = Some ''X''
   \<and> out_files (snd (extract_partitions
          (\<lambda>p c t. (None, Some [(''kernel'', c)]))
          (\<lambda>p c t. (None, Some [(''build.prop'', c)]))
          (\<lambda>e. ''boom'')
          [''foo_a.img'' \<mapsto> ''X'', ''boot.img'' \<mapsto> ''A'']
          \<lparr>out_dirs = Map.empty, out_files = Map.empty, out_log = []\<rparr>)) ''foo_a.img'' = None
   \<and> out_dirs (snd (extract_partitions
          (\<lambda>p c t. (None, Some [(''kernel'', c)]))
          (\<lambda>p c t. (None, Some [(''build.prop'', c)]))
          (\<lambda>e. ''boom'')
          [''foo_a.img'' \<mapsto> ''X'', ''boot.img'' \<mapsto> ''A'']
          \<lparr>out_dirs = Map.empty, out_files = Map.empty, out_log = []\<rparr>)) ''foo_a.img'' = None"
proof -
  have un: "partition_token ''foo_a.img'' \<notin> set get_partition_names_with_alias"
    unfolding token_foo
    by (simp add: get_partition_names_with_alias_def get_partition_names_def PARTITIONS_def
        ALTERNATIVE_PARTITION_NAMES_def)
  show ?thesis
    using unknown_token_untouched [OF un, of "[''foo_a.img'', ''boot_a.img'']"
        "[''foo_a.img'' \<mapsto> ''X'', ''boot_a.img'' \<mapsto> ''A'']"
        "\<lambda>p c t. (None, Some [(''kernel'', c)])" "\<lambda>p c t. (None, Some [(''build.prop'', c)])"
        "\<lambda>e. ''boom''" "[''foo_a.img'' \<mapsto> ''X'', ''boot.img'' \<mapsto> ''A'']"
        "\<lparr>out_dirs = Map.empty, out_files = Map.empty, out_log = []\<rparr>"]
    by simp
qed

section \<open>Properties of the orchestrator\<close>




text \<open>
  C10. The steps are parameters; each is taken to leave the two temporary directories in
  place when both are there (the cleanup is not their task). Then on every successful run
  of \<open>dumpyara\<close> the state on which the file listing is computed, the one the last step
  left, has both \<open>temp_extracted_archive\<close> and \<open>temp_raw_images\<close>; the manifest holds the
  listing of that state; and the final state is the \<open>finally\<close> block applied to the state
  with the manifest written: the removal comes after the manifest.
\<close>

theorem manifest_before_cleanup:
  assumes "\<And>w. child_exists ''temp_extracted_archive'' w \<Longrightarrow> child_exists ''temp_raw_images'' w \<Longrightarrow>
                 child_exists ''temp_extracted_archive'' (snd (step_1 w)) \<and>
                 child_exists ''temp_raw_images'' (snd (step_1 w))"
    and "\<And>w. child_exists ''temp_extracted_archive'' w \<Longrightarrow> child_exists ''temp_raw_images'' w \<Longrightarrow>
                 child_exists ''temp_extracted_archive'' (snd (step_2 w)) \<and>
                 child_exists ''temp_raw_images'' (snd (step_2 w))"
    and "\<And>w. child_exists ''temp_extracted_archive'' w \<Longrightarrow> child_exists ''temp_raw_images'' w \<Longrightarrow>
                 child_exists ''temp_extracted_archive'' (snd (step_3 w)) \<and>
                 child_exists ''temp_raw_images'' (snd (step_3 w))"
    and "fst (dumpyara step_1 step_2 step_3 get_recursive_files_list strcoll_sorted debug w) = Returned ()"
  shows "fst (dumpyara_steps step_1 step_2 step_3 w) = Returned ()
    \<and> child_exists ''temp_extracted_archive'' (snd (dumpyara_steps step_1 step_2 step_3 w))
    \<and> child_exists ''temp_raw_images'' (snd (dumpyara_steps step_1 step_2 step_3 w))
    \<and> child ''all_files.txt''
         (snd (dumpyara step_1 step_2 step_3 get_recursive_files_list strcoll_sorted debug w))
       = Some (File (manifest_text get_recursive_files_list strcoll_sorted
                      (snd (dumpyara_steps step_1 step_2 step_3 w))))
    \<and> snd (dumpyara step_1 step_2 step_3 get_recursive_files_list strcoll_sorted debug w)
       = snd (cleanup debug (snd (finalize get_recursive_files_list strcoll_sorted
                                    (snd (dumpyara_steps step_1 step_2 step_3 w)))))"
proof -
  let ?st = "dumpyara_steps step_1 step_2 step_3 w"
  let ?fin = "finalize get_recursive_files_list strcoll_sorted (snd ?st)"
  note R = dumpyara_returned [OF assms(4)]
  have 2: "child_exists ''temp_extracted_archive'' (snd ?st) \<and> child_exists ''temp_raw_images'' (snd ?st)"
    by (rule steps_keep_temp [of step_1 step_2 step_3 w]) (use assms(1,2,3) R(1) in blast)+
  obtain w4 where fin: "?fin = (Returned (), w4)" using R(2) by (cases ?fin) auto
  have "child ''all_files.txt'' w4
          = Some (File (manifest_text get_recursive_files_list strcoll_sorted (snd ?st)))"
    using write_text_child [of "''all_files.txt''" _ "snd ?st" w4 "''all_files.txt''"] fin
    by (simp add: finalize_def)
  then have 3: "child ''all_files.txt'' (snd (cleanup debug (snd ?fin)))
          = Some (File (manifest_text get_recursive_files_list strcoll_sorted (snd ?st)))"
    using fin by (simp add: cleanup_child)
  show ?thesis using R(1) 2 3 R(4) by simp
qed

theorem manifest_before_cleanup_witness:
  "fst (dumpyara_steps (\<lambda>w. (Returned (), w)) (\<lambda>w. (Returned (), w)) (write_text ''boot.img'' ''B'') Absent)
     = Returned ()
   \<and> child_exists ''temp_extracted_archive''
        (snd (dumpyara_steps (\<lambda>w. (Returned (), w)) (\<lambda>w. (Returned (), w)) (write_text ''boot.img'' ''B'') Absent))
   \<and> child_exists ''temp_raw_images''
        (snd (dumpyara_steps (\<lambda>w. (Returned (), w)) (\<lambda>w. (Returned (), w)) (write_text ''boot.img'' ''B'') Absent))
   \<and> child ''all_files.txt''
        (snd (dumpyara (\<lambda>w. (Returned (), w)) (\<lambda>w. (Returned (), w)) (write_text ''boot.img'' ''B'')
               (\<lambda>w. filter (\<lambda>n. child_exists n w) [''boot.img'', ''temp_extracted_archive'', ''temp_raw_images''])
               (\<lambda>l. l) False Absent))
       = Some (File (''boot.img'' @ [CHR 0x0A] @ ''temp_extracted_archive'' @ [CHR 0x0A]
                      @ ''temp_raw_images'' @ [CHR 0x0A]))
   \<and> \<not> child_exists ''temp_raw_images''
        (snd (dumpyara (\<lambda>w. (Returned (), w)) (\<lambda>w. (Returned (), w)) (write_text ''boot.img'' ''B'')
               (\<lambda>w. filter (\<lambda>n. child_exists n w) [''boot.img'', ''temp_extracted_archive'', ''temp_raw_images''])
               (\<lambda>l. l) False Absent))"
proof -
  let ?S = "\<lambda>w::world. (Returned (), w)"
  let ?S3 = "write_text ''boot.img'' ''B''"
  let ?G = "\<lambda>w. filter (\<lambda>n. child_exists n w) [''boot.img'', ''temp_extracted_archive'', ''temp_raw_images'']"
  let ?R = "\<lambda>l::string list. l"
  let ?w3 = "Directory [''temp_extracted_archive'' \<mapsto> Dir [], ''temp_raw_images'' \<mapsto> Dir [],
                               ''boot.img'' \<mapsto> File ''B'']"
  have st: "dumpyara_steps ?S ?S ?S3 Absent = (Returned (), ?w3)"
    by (simp add: dumpyara_steps_eq write_text_def)
  have fin: "fst (finalize ?G ?R ?w3) = Returned ()"
    by (simp add: finalize_def write_text_def)
  obtain w4 where w4: "finalize ?G ?R ?w3 = (Returned (), w4)"
    using fin by (cases "finalize ?G ?R ?w3") auto
  have nf: "\<not> is_regular_file ''temp_extracted_archive'' w4" "\<not> is_regular_file ''temp_raw_images'' w4"
    using finalize_not_file [of "''temp_extracted_archive''" ?w3 ?G ?R]
      finalize_not_file [of "''temp_raw_images''" ?w3 ?G ?R] w4
    by (simp_all add: is_regular_file_def child_def)
  note C = cleanup_removes [OF nf]
  obtain w5 where w5: "cleanup False w4 = (Returned (), w5)"
    using C by (cases "cleanup False w4") auto
  have d: "dumpyara ?S ?S ?S3 ?G ?R False Absent = (Returned (), w5)"
    by (simp only: dumpyara_def dumpyara_try_def st w4 w5 prod.case result.case)
  have ok: "fst (dumpyara ?S ?S ?S3 ?G ?R False Absent) = Returned ()" using d by simp
  have T: "fst (dumpyara_steps ?S ?S ?S3 Absent) = Returned ()
    \<and> child_exists ''temp_extracted_archive'' (snd (dumpyara_steps ?S ?S ?S3 Absent))
    \<and> child_exists ''temp_raw_images'' (snd (dumpyara_steps ?S ?S ?S3 Absent))
    \<and> child ''all_files.txt'' (snd (dumpyara ?S ?S ?S3 ?G ?R False Absent))
       = Some (File (manifest_text ?G ?R (snd (dumpyara_steps ?S ?S ?S3 Absent))))
    \<and> snd (dumpyara ?S ?S ?S3 ?G ?R False Absent)
       = snd (cleanup False (snd (finalize ?G ?R (snd (dumpyara_steps ?S ?S ?S3 Absent)))))"
  proof (rule manifest_before_cleanup [of ?S ?S ?S3 ?G ?R False Absent])
    show "child_exists ''temp_extracted_archive'' (snd (?S w)) \<and> child_exists ''temp_raw_images'' (snd (?S w))"
      if "child_exists ''temp_extracted_archive'' w" "child_exists ''temp_raw_images'' w" for w
      using that by simp
    then show "child_exists ''temp_extracted_archive'' (snd (?S w)) \<and> child_exists ''temp_raw_images'' (snd (?S w))"
      if "child_exists ''temp_extracted_archive'' w" "child_exists ''temp_raw_images'' w" for w
      using that by simp
    show "child_exists ''temp_extracted_archive'' (snd (?S3 w)) \<and> child_exists ''temp_raw_images'' (snd (?S3 w))"
      if "child_exists ''temp_extracted_archive'' w" "child_exists ''temp_raw_images'' w" for w
      using that write_text_keeps by blast
    show "fst (dumpyara ?S ?S ?S3 ?G ?R False Absent) = Returned ()" by (rule ok)
  qed
  have m: "manifest_text ?G ?R (snd (dumpyara_steps ?S ?S ?S3 Absent))
             = ''boot.img'' @ [CHR 0x0A] @ ''temp_extracted_archive'' @ [CHR 0x0A]
                 @ ''temp_raw_images'' @ [CHR 0x0A]"
    by (simp add: st manifest_text_def child_exists_def)
  have gone: "\<not> child_exists ''temp_raw_images'' (snd (dumpyara ?S ?S ?S3 ?G ?R False Absent))"
    using C w5 d by simp
  have c1: "fst (dumpyara_steps ?S ?S ?S3 Absent) = Returned ()" using T by blast
  have c2: "child_exists ''temp_extracted_archive'' (snd (dumpyara_steps ?S ?S ?S3 Absent))"
    using T by blast
  have c3: "child_exists ''temp_raw_images'' (snd (dumpyara_steps ?S ?S ?S3 Absent))"
    using T by blast
  have "child ''all_files.txt'' (snd (dumpyara ?S ?S ?S3 ?G ?R False Absent))
       = Some (File (manifest_text ?G ?R (snd (dumpyara_steps ?S ?S ?S3 Absent))))"
    using T by blast
  then have c4: "child ''all_files.txt'' (snd (dumpyara ?S ?S ?S3 ?G ?R False Absent))
       = Some (File (''boot.img'' @ [CHR 0x0A] @ ''temp_extracted_archive'' @ [CHR 0x0A]
                      @ ''temp_raw_images'' @ [CHR 0x0A]))"
    by (simp only: m)
  show ?thesis using c1 c2 c3 c4 gone by blast
qed

end
